theory Spec2Isabelle
  imports Complex_Main "HOL-Library.AList"
begin

section \<open>The TTL/LRU cache (utils/cache.py, class EnhancedCache)\<close>

text \<open>
  Conventions of the embedding.
  \<^item> Durations and clock readings are real numbers; the source holds them in Python
    floats, whose rounding and overflow are not modelled.
  \<^item> \<^verbatim>\<open>time.time()\<close> is an argument \<open>now\<close> of the function that reads the clock.
  \<^item> Cache keys are strings, as every caller of the cache passes them.
  \<^item> A cached payload is a \<open>'v option\<close>: \<open>None\<close> is Python's \<^verbatim>\<open>None\<close>, which the
    gateway does store (negative caching of an order that was not found).
  \<^item> A Python \<^verbatim>\<open>dict\<close> is an association list with distinct keys, in insertion order:
    \<open>AList.update\<close> overwrites in place or appends, as the assignment \<^verbatim>\<open>d[k] = v\<close>
    does, \<open>AList.delete\<close> is \<^verbatim>\<open>del d[k]\<close>, \<open>map_of\<close> is the lookup and
    \<open>length\<close> is \<^verbatim>\<open>len\<close>.
\<close>

subsection \<open>Data\<close>

text \<open>
  An entry is the dict \<^verbatim>\<open>{"data": .., "timestamp": .., "ttl": ..}\<close>. The reader uses
  \<^verbatim>\<open>entry.get("timestamp", 0)\<close> and \<^verbatim>\<open>entry.get("ttl", default)\<close>, so the two fields
  are optional in the model; \<^verbatim>\<open>entry.get("data")\<close> is \<^verbatim>\<open>None\<close> when absent.
\<close>

record 'v entry =
  e_data :: "'v option"
  e_timestamp :: "real option"
  e_ttl :: "real option"

text \<open>
  \<^verbatim>\<open>access_order\<close> is a \<^verbatim>\<open>deque(maxlen=max_items)\<close>, least recently used first.
  The constructor of a deque rejects a negative \<^verbatim>\<open>maxlen\<close>, hence \<open>max_items\<close> is a \<open>nat\<close>.
\<close>

record 'v enhanced_cache =
  cache :: "(string \<times> 'v entry) list"
  access_order :: "string list"
  hits :: nat
  misses :: nat
  max_items :: nat
  default_ttl :: real

definition init_cache :: "nat \<Rightarrow> 'v enhanced_cache" where
  "init_cache n =
     \<lparr>cache = [], access_order = [], hits = 0, misses = 0, max_items = n, default_ttl = 60\<rparr>"

subsection \<open>Python helpers\<close>

text \<open>\<^verbatim>\<open>x or d\<close> on an optional number: \<^verbatim>\<open>None\<close> and \<^verbatim>\<open>0\<close> are falsy.\<close>

definition py_or :: "real option \<Rightarrow> real \<Rightarrow> real" where
  "py_or x d = (case x of None \<Rightarrow> d | Some t \<Rightarrow> if t = 0 then d else t)"

text \<open>
  \<^verbatim>\<open>deque.append\<close> on a bounded deque: the item is added on the right, and what is
  beyond \<^verbatim>\<open>maxlen\<close> is discarded from the left (with \<^verbatim>\<open>maxlen = 0\<close> the deque stays empty).
\<close>

definition deque_append :: "nat \<Rightarrow> 'a list \<Rightarrow> 'a \<Rightarrow> 'a list" where
  "deque_append maxlen xs x = (let ys = xs @ [x] in drop (length ys - maxlen) ys)"

subsection \<open>Operations\<close>

definition update_access_order :: "'v enhanced_cache \<Rightarrow> string \<Rightarrow> 'v enhanced_cache" where
  "update_access_order c key =
     (let ao = (if key \<in> set (access_order c) then remove1 key (access_order c)
                else access_order c)
      in c\<lparr>access_order := deque_append (max_items c) ao key\<rparr>)"

definition remove_entry :: "'v enhanced_cache \<Rightarrow> string \<Rightarrow> 'v enhanced_cache" where
  "remove_entry c key =
     (let c1 = (if map_of (cache c) key \<noteq> None then c\<lparr>cache := AList.delete key (cache c)\<rparr>
                else c)
      in if key \<in> set (access_order c1)
         then c1\<lparr>access_order := remove1 key (access_order c1)\<rparr> else c1)"

definition evict_lru :: "'v enhanced_cache \<Rightarrow> 'v enhanced_cache" where
  "evict_lru c = (case access_order c of [] \<Rightarrow> c | lru_key # _ \<Rightarrow> remove_entry c lru_key)"

text \<open>
  \<^verbatim>\<open>get(key, default_ttl)\<close> at clock reading \<open>now\<close>; the result is the pair
  \<^verbatim>\<open>(is_hit, cached_value)\<close> and the cache after the call.
\<close>

definition cache_get ::
  "'v enhanced_cache \<Rightarrow> string \<Rightarrow> real option \<Rightarrow> real \<Rightarrow> (bool \<times> 'v option) \<times> 'v enhanced_cache"
where
  "cache_get c key dflt now =
     (case map_of (cache c) key of
        None \<Rightarrow> ((False, None), c\<lparr>misses := misses c + 1\<rparr>)
      | Some entry \<Rightarrow>
          (let ttl = (case e_ttl entry of Some t \<Rightarrow> t | None \<Rightarrow> py_or dflt (default_ttl c));
               stamp = (case e_timestamp entry of Some t \<Rightarrow> t | None \<Rightarrow> 0)
           in if now - stamp > ttl
              then (let c1 = remove_entry c key in ((False, None), c1\<lparr>misses := misses c1 + 1\<rparr>))
              else (let c1 = update_access_order c key
                    in ((True, e_data entry), c1\<lparr>hits := hits c1 + 1\<rparr>))))"

text \<open>\<^verbatim>\<open>set(key, value, ttl)\<close> at clock reading \<open>now\<close>; returns the value.\<close>

definition cache_set ::
  "'v enhanced_cache \<Rightarrow> string \<Rightarrow> 'v option \<Rightarrow> real option \<Rightarrow> real \<Rightarrow> 'v option \<times> 'v enhanced_cache"
where
  "cache_set c key val ttl now =
     (let c1 = (if length (cache c) \<ge> max_items c \<and> map_of (cache c) key = None
                then evict_lru c else c);
          c2 = c1\<lparr>cache := AList.update key
                 \<lparr>e_data = val, e_timestamp = Some now, e_ttl = Some (py_or ttl (default_ttl c1))\<rparr>
                 (cache c1)\<rparr>
      in (val, update_access_order c2 key))"

text \<open>
  \<^verbatim>\<open>clear(key=None)\<close>. The test is \<^verbatim>\<open>if key:\<close>, so the empty string clears
  everything, as \<^verbatim>\<open>None\<close> does.
\<close>

definition cache_clear :: "'v enhanced_cache \<Rightarrow> string option \<Rightarrow> 'v enhanced_cache" where
  "cache_clear c key =
     (case key of
        Some k \<Rightarrow>
          if k \<noteq> [] then
            (if map_of (cache c) k \<noteq> None then
               (let c1 = c\<lparr>cache := AList.delete k (cache c)\<rparr>
                in if k \<in> set (access_order c1)
                   then c1\<lparr>access_order := remove1 k (access_order c1)\<rparr> else c1)
             else c)
          else c\<lparr>cache := [], access_order := []\<rparr>
      | None \<Rightarrow> c\<lparr>cache := [], access_order := []\<rparr>)"

text \<open>The keys resident in the entry map.\<close>

definition resident :: "'v enhanced_cache \<Rightarrow> string set" where
  "resident c = fst ` set (cache c)"

subsection \<open>Sequences of operations on one cache\<close>

text \<open>
  A caller's use of a cache is a list of calls, oldest first; each call that reads the
  clock carries the reading. \<open>run_ops\<close> applies them in order.
\<close>

datatype 'v cache_op =
    OpGet string "real option" real
  | OpSet string "'v option" "real option" real
  | OpClear "string option"

fun apply_op :: "'v enhanced_cache \<Rightarrow> 'v cache_op \<Rightarrow> 'v enhanced_cache" where
  "apply_op c (OpGet key dflt now) = snd (cache_get c key dflt now)"
| "apply_op c (OpSet key val ttl now) = snd (cache_set c key val ttl now)"
| "apply_op c (OpClear key) = cache_clear c key"

definition run_ops :: "'v enhanced_cache \<Rightarrow> 'v cache_op list \<Rightarrow> 'v enhanced_cache" where
  "run_ops c ops = foldl apply_op c ops"

text \<open>
  A fresh cache is what the constructor builds; the gateway then assigns
  \<^verbatim>\<open>default_ttl\<close> before any use, so the fresh cache carries that value \<open>d\<close>.
\<close>

definition fresh_cache :: "nat \<Rightarrow> real \<Rightarrow> 'v enhanced_cache" where
  "fresh_cache n d = (init_cache n)\<lparr>default_ttl := d\<rparr>"

text \<open>
  The lockstep invariant of the two containers: the dict has distinct keys (it is a
  dict), the recency sequence has no duplicates and holds exactly the resident keys,
  and the number of entries is within the capacity.
\<close>

definition cache_inv :: "'v enhanced_cache \<Rightarrow> bool" where
  "cache_inv c \<longleftrightarrow>
     distinct (map fst (cache c)) \<and> distinct (access_order c) \<and>
     set (access_order c) = resident c \<and> length (cache c) \<le> max_items c"

text \<open>
  \<open>touches key op\<close>: the call is a get or a set of \<open>key\<close>. \<open>last_use key ops\<close> is the
  position (from 1) of the last such call in \<open>ops\<close>, and 0 when there is none.
\<close>

fun touches :: "string \<Rightarrow> 'v cache_op \<Rightarrow> bool" where
  "touches key (OpGet k dflt now) = (k = key)"
| "touches key (OpSet k val ttl now) = (k = key)"
| "touches key (OpClear k) = False"

fun last_use_rev :: "string \<Rightarrow> 'v cache_op list \<Rightarrow> nat" where
  "last_use_rev key [] = 0"
| "last_use_rev key (op # older) =
     (if touches key op then Suc (length older) else last_use_rev key older)"

definition last_use :: "string \<Rightarrow> 'v cache_op list \<Rightarrow> nat" where
  "last_use key ops = last_use_rev key (rev ops)"

section \<open>Effects shared by the retrier, the throttler and the gateway\<close>

subsection \<open>Exceptions\<close>

text \<open>
  An exception is a class and a message. \<open>mro\<close> lists a class with its base classes, so
  that \<^verbatim>\<open>except (A, B) as e\<close> is the test \<open>isinstance e [A, B]\<close>: in Python
  \<^verbatim>\<open>BrokenPipeError\<close> derives from \<^verbatim>\<open>ConnectionError\<close>, which derives, as
  \<^verbatim>\<open>TimeoutError\<close> does, from \<^verbatim>\<open>OSError\<close>; \<^verbatim>\<open>CancelledError\<close> derives from
  \<^verbatim>\<open>BaseException\<close> only, and \<^verbatim>\<open>APIError\<close> stands for what the spreadsheet client
  raises.
\<close>

datatype exc_class =
    BaseException | CancelledError | Exception | OSError | ConnectionError
  | BrokenPipeError | TimeoutError | FileNotFoundError | ValueError | TypeError
  | AttributeError | RuntimeError | ArithmeticError | OverflowError | APIError

datatype exn = Exn (exn_class: exc_class) (exn_msg: string)

fun mro :: "exc_class \<Rightarrow> exc_class list" where
  "mro BaseException = [BaseException]"
| "mro CancelledError = [CancelledError, BaseException]"
| "mro Exception = [Exception, BaseException]"
| "mro OSError = [OSError, Exception, BaseException]"
| "mro ConnectionError = [ConnectionError, OSError, Exception, BaseException]"
| "mro BrokenPipeError =
     [BrokenPipeError, ConnectionError, OSError, Exception, BaseException]"
| "mro TimeoutError = [TimeoutError, OSError, Exception, BaseException]"
| "mro FileNotFoundError = [FileNotFoundError, OSError, Exception, BaseException]"
| "mro OverflowError = [OverflowError, ArithmeticError, Exception, BaseException]"
| "mro c = [c, Exception, BaseException]"

definition isinstance :: "exn \<Rightarrow> exc_class list \<Rightarrow> bool" where
  "isinstance e classes = list_ex (\<lambda>c. c \<in> set (mro (exn_class e))) classes"

subsection \<open>The world: clock, sleeps and log\<close>

text \<open>
  Log records are kept as data: the logger (\<^verbatim>\<open>"main"\<close> or \<^verbatim>\<open>"errors"\<close>), the level
  and what the message reports. The texts themselves are not modelled.
\<close>

datatype log_level = ERROR | WARNING | INFO

datatype log_msg =
    FailedAfterAttempts string int exn
  | AttemptFailedRetrying string int int exn real
  | NonRetryableError string exn
  | UsingDefaultInventory
  | ErrorFetchingInventory exn
  | FailedToInitializeSheets exn
  | SheetStepFailed string exn
  | FailedInitializeForAddingOrder
  | ErrorFindingNextRow exn
  | FailedToAddOrder exn
  | FailedToGetSheetForOrderDetails
  | FailedToGetOrderDetails exn

text \<open>
  \<open>clock\<close> is what \<^verbatim>\<open>time.time()\<close> returns; \<open>slept\<close> lists the arguments of every
  \<^verbatim>\<open>asyncio.sleep\<close>, oldest first. A sleep advances the clock by its argument and a
  non-positive argument returns at once; time that passes otherwise is a change of
  \<open>clock\<close> between calls.
\<close>

record world =
  clock :: real
  slept :: "real list"
  logs :: "(string \<times> log_level \<times> log_msg) list"

definition log_to :: "string \<Rightarrow> log_level \<Rightarrow> log_msg \<Rightarrow> 'z world_scheme \<Rightarrow> 'z world_scheme" where
  "log_to logger level msg w = w\<lparr>logs := logs w @ [(logger, level, msg)]\<rparr>"

definition asyncio_sleep :: "real \<Rightarrow> 'z world_scheme \<Rightarrow> 'z world_scheme" where
  "asyncio_sleep d w = w\<lparr>clock := clock w + max d 0, slept := slept w @ [d]\<rparr>"

text \<open>
  \<^verbatim>\<open>random.uniform(a, b)\<close> is \<^verbatim>\<open>a + (b - a) * random()\<close>; the value \<open>u\<close> of
  \<^verbatim>\<open>random()\<close> lies in the unit interval and is an argument of the model.
\<close>

definition uniform :: "real \<Rightarrow> real \<Rightarrow> real \<Rightarrow> real" where
  "uniform a b u = a + (b - a) * u"

section \<open>The backoff retrier (utils/retryable.py, class RetryableOperation)\<close>

record retry_config =
  max_retries :: int
  base_delay :: real
  retry_on :: "exc_class list"
  use_jitter :: bool

text \<open>
  The constructor's defaults: \<^verbatim>\<open>max_retries=3, base_delay=1.0,
  retry_on=(ConnectionError, TimeoutError), jitter=True\<close>.
\<close>

definition RetryableOperation :: "int \<Rightarrow> exc_class list \<Rightarrow> retry_config" where
  "RetryableOperation n classes =
     \<lparr>max_retries = n, base_delay = 1, retry_on = classes, use_jitter = True\<rparr>"

text \<open>
  \<^verbatim>\<open>base_delay\<close> is a float, and \<^verbatim>\<open>2 ** (retry_count - 1)\<close> is a Python int, which
  the product converts to a float. Python raises \<^verbatim>\<open>OverflowError\<close> when the int does
  not round to a finite double, that is from \<open>2^1024 - 2^970\<close> on in absolute value.
  Apart from this error, floats are real numbers here.
\<close>

definition float_limit :: int where
  "float_limit = 2 ^ 1024 - 2 ^ 970"

definition int_to_float :: "int \<Rightarrow> exn + real" where
  "int_to_float n =
     (if float_limit \<le> \<bar>n\<bar> then Inl (Exn OverflowError ''int too large to convert to float'')
      else Inr (of_int n))"

text \<open>
  \<^verbatim>\<open>min(self.base_delay * (2 ** (retry_count - 1)), 60)\<close>: exponential backoff capped
  at 60 seconds. With a negative exponent the power is a float already.
\<close>

definition backoff_cap :: "retry_config \<Rightarrow> int \<Rightarrow> exn + real" where
  "backoff_cap cfg retry_count =
     (if 0 \<le> retry_count - 1 then
        (case int_to_float (2 ^ nat (retry_count - 1)) of
           Inl e \<Rightarrow> Inl e
         | Inr p \<Rightarrow> Inr (min (base_delay cfg * p) 60))
      else Inr (min (base_delay cfg * (2 powi (retry_count - 1))) 60))"

text \<open>
  The delay before retry number \<open>retry_count\<close>: the capped backoff plus the jitter when
  enabled. \<open>u\<close> is the value of \<^verbatim>\<open>random()\<close> for this retry.
\<close>

definition backoff_delay :: "retry_config \<Rightarrow> int \<Rightarrow> real \<Rightarrow> exn + real" where
  "backoff_delay cfg retry_count u =
     (case backoff_cap cfg retry_count of
        Inl e \<Rightarrow> Inl e
      | Inr delay \<Rightarrow>
          Inr (if use_jitter cfg then delay + uniform 0 (0.5 * delay) u else delay))"

text \<open>
  What \<open>run\<close> returns in the model: the result or the exception raised (\<open>outcome\<close>), the
  world after the call, and two records kept for the statements below, which the source
  does not hold: \<open>invocations\<close>, the outcome of every call of the operation in order,
  and \<open>delays\<close>, the arguments of the sleeps of \<open>run\<close> itself in order (the operation
  may sleep too, and those sleeps are in the world only).
\<close>

record ('a, 'w) run_result =
  outcome :: "exn + 'a"
  invocations :: "(exn + 'a) list"
  delays :: "real list"
  world_after :: 'w

text \<open>
  \<^verbatim>\<open>raise last_exception or RuntimeError(...)\<close>: an exception object is truthy.
\<close>

definition raise_last :: "exn option \<Rightarrow> string \<Rightarrow> exn" where
  "raise_last last_exception operation_name =
     (case last_exception of
        Some e \<Rightarrow> e
      | None \<Rightarrow> Exn RuntimeError
          (''Operation '' @ [CHR 0x27] @ operation_name @ [CHR 0x27] @ '' failed for unknown reasons''))"

text \<open>
  The \<^verbatim>\<open>while retry_count <= self.max_retries\<close> loop. The operation is a function of the
  world; \<open>rnd k\<close> is the value of \<^verbatim>\<open>random()\<close> drawn for retry \<open>k\<close>. An
  \<^verbatim>\<open>OverflowError\<close> of the delay is raised inside the handler of the retryable
  exception, before the warning is logged, so it leaves \<open>run\<close>. The loop ends:
  \<open>max_retries + 1 - retry_count\<close> decreases.
\<close>

function run_loop ::
  "retry_config \<Rightarrow> ('z world_scheme \<Rightarrow> (exn + 'a) \<times> 'z world_scheme) \<Rightarrow> string \<Rightarrow> (int \<Rightarrow> real) \<Rightarrow>
   int \<Rightarrow> exn option \<Rightarrow> (exn + 'a) list \<Rightarrow> real list \<Rightarrow> 'z world_scheme \<Rightarrow>
   ('a, 'z world_scheme) run_result"
where
  "run_loop cfg operation_func operation_name rnd retry_count last_exception invs dels w =
     (if retry_count \<le> max_retries cfg then
        (case fst (operation_func w) of
           Inr result \<Rightarrow>
             \<lparr>outcome = Inr result, invocations = invs @ [Inr result], delays = dels,
              world_after = snd (operation_func w)\<rparr>
         | Inl e \<Rightarrow>
             if isinstance e (retry_on cfg) then
               (if retry_count + 1 > max_retries cfg then
                  \<lparr>outcome = Inl (raise_last (Some e) operation_name),
                   invocations = invs @ [Inl e], delays = dels,
                   world_after = log_to ''errors'' ERROR
                     (FailedAfterAttempts operation_name (retry_count + 1) e)
                     (snd (operation_func w))\<rparr>
                else
                  (case backoff_delay cfg (retry_count + 1) (rnd (retry_count + 1)) of
                     Inl overflow \<Rightarrow>
                       \<lparr>outcome = Inl overflow, invocations = invs @ [Inl e], delays = dels,
                        world_after = snd (operation_func w)\<rparr>
                   | Inr delay \<Rightarrow>
                       run_loop cfg operation_func operation_name rnd (retry_count + 1) (Some e)
                         (invs @ [Inl e]) (dels @ [delay])
                         (asyncio_sleep delay
                           (log_to ''main'' WARNING
                             (AttemptFailedRetrying operation_name (retry_count + 1)
                                (max_retries cfg) e delay)
                             (snd (operation_func w))))))
             else
               \<lparr>outcome = Inl e, invocations = invs @ [Inl e], delays = dels,
                world_after =
                  (if isinstance e [Exception]
                   then log_to ''errors'' ERROR (NonRetryableError operation_name e)
                          (snd (operation_func w))
                   else snd (operation_func w))\<rparr>)
      else
        \<lparr>outcome = Inl (raise_last last_exception operation_name), invocations = invs,
         delays = dels, world_after = w\<rparr>)"
  by pat_completeness auto
termination
  by (relation "measure (\<lambda>(cfg, f, name, rnd, retry_count, last, invs, dels, w).
        nat (max_retries cfg + 1 - retry_count))") auto

text \<open>
  \<^verbatim>\<open>run(operation_func, operation_name=None)\<close>: the name defaults to the function's
  \<^verbatim>\<open>__name__\<close>, and to \<^verbatim>\<open>"unknown_operation"\<close> without one (an empty name is falsy).
\<close>

definition run ::
  "retry_config \<Rightarrow> ('z world_scheme \<Rightarrow> (exn + 'a) \<times> 'z world_scheme) \<Rightarrow> string option \<Rightarrow>
   string option \<Rightarrow> (int \<Rightarrow> real) \<Rightarrow> 'z world_scheme \<Rightarrow> ('a, 'z world_scheme) run_result"
where
  "run cfg operation_func func_name operation_name rnd w =
     (let name = (case operation_name of
                    Some n \<Rightarrow> if n \<noteq> [] then n
                              else (case func_name of Some f \<Rightarrow> f | None \<Rightarrow> ''unknown_operation'')
                  | None \<Rightarrow> (case func_name of Some f \<Rightarrow> f | None \<Rightarrow> ''unknown_operation''))
      in run_loop cfg operation_func name rnd 0 None [] [] w)"

section \<open>The request throttler (GoogleAPIsManager._rate_limit_request)\<close>

text \<open>
  \<^verbatim>\<open>self.last_request_time\<close> is a dict from the name of an operation class to the clock
  reading of its last request; its order matters to the clean-up at the end of the
  function, so it is an association list.
\<close>

record throttled = world +
  last_request_time :: "(string \<times> real) list"

text \<open>\<^verbatim>\<open>d.get(k, default)\<close>.\<close>

definition dict_get :: "('k \<times> 'v) list \<Rightarrow> 'k \<Rightarrow> 'v \<Rightarrow> 'v" where
  "dict_get d k dflt = (case map_of d k of Some v \<Rightarrow> v | None \<Rightarrow> dflt)"

definition min_wait_times :: "(string \<times> real) list" where
  "min_wait_times =
     [(''sheets'', 1.0), (''sheets_read'', 0.5), (''sheets_write'', 1.2),
      (''drive'', 1.5), (''inventory'', 0.8), (''default'', 1.0)]"

text \<open>
  \<^verbatim>\<open>min_wait_times.get(api_name, min_wait_times['default'])\<close>; the key
  \<^verbatim>\<open>'default'\<close> is in the table.
\<close>

definition min_wait :: "string \<Rightarrow> real" where
  "min_wait api_name = dict_get min_wait_times api_name (dict_get min_wait_times ''default'' 1.0)"

text \<open>
  \<^verbatim>\<open>sorted(items, key=lambda x: x[1], reverse=True)\<close>: a stable sort in descending
  order of the timestamps, items with equal timestamps keeping their order.
\<close>

definition sorted_by_time_desc :: "(string \<times> real) list \<Rightarrow> (string \<times> real) list" where
  "sorted_by_time_desc items = rev (sort_key snd (rev items))"

text \<open>
  \<open>u\<close> is the value of \<^verbatim>\<open>random()\<close> behind \<^verbatim>\<open>random.uniform(-0.1, 0.1)\<close>. The clock
  is read on entry and again, after the sleep if there is one, for the record.
\<close>

definition rate_limit_request :: "string \<Rightarrow> real \<Rightarrow> 'z throttled_scheme \<Rightarrow> 'z throttled_scheme" where
  "rate_limit_request api_name u m =
     (let now = clock m;
          last_request = dict_get (last_request_time m) api_name 0;
          time_since_last = now - last_request;
          m1 = (if time_since_last < min_wait api_name then
                  (let wait_time = min_wait api_name - time_since_last + 0.1;
                       jitter = uniform (- 0.1) 0.1 u * wait_time;
                       adjusted_wait = max 0.1 (wait_time + jitter)
                   in asyncio_sleep adjusted_wait m)
                else m);
          m2 = m1\<lparr>last_request_time :=
                    AList.update api_name (clock m1) (last_request_time m1)\<rparr>
      in if length (last_request_time m2) > 20
         then m2\<lparr>last_request_time := take 10 (sorted_by_time_desc (last_request_time m2))\<rparr>
         else m2)"

section \<open>The spreadsheet gateway (apis/google_api_manager.py, class GoogleAPIsManager)\<close>

subsection \<open>Rows and products\<close>

text \<open>
  A cell of a sheet, and a value of \<^verbatim>\<open>DEFAULT_INVENTORY\<close>, is a number or a string. A
  row is the dict that \<^verbatim>\<open>get_all_records\<close> returns for it, from column names to cells.
\<close>

datatype pyval = PInt int | PStr string

type_synonym row = "(string \<times> pyval) list"

text \<open>
  \<^verbatim>\<open>str.lower\<close> and \<^verbatim>\<open>str.replace(' ', '_')\<close> on ASCII text, which is what the
  built-in catalog holds; a method of \<^verbatim>\<open>str\<close> called on a number raises
  \<^verbatim>\<open>AttributeError\<close>.
\<close>

definition lower_char :: "char \<Rightarrow> char" where
  "lower_char c =
     (if 65 \<le> (of_char c :: nat) \<and> (of_char c :: nat) \<le> 90
      then char_of (of_char c + 32 :: nat) else c)"

definition py_lower :: "pyval \<Rightarrow> exn + string" where
  "py_lower v =
     (case v of
        PStr s \<Rightarrow> Inr (map lower_char s)
      | PInt n \<Rightarrow> Inl (Exn AttributeError ''int object has no attribute lower''))"

definition replace_spaces :: "string \<Rightarrow> string" where
  "replace_spaces s = map (\<lambda>c. if c = CHR '' '' then CHR ''_'' else c) s"

record product =
  p_name :: pyval
  p_key :: string
  p_price :: pyval
  p_stock :: pyval
  p_tag :: string
  p_strain :: string
  p_weight :: pyval
  p_brand :: pyval

text \<open>
  The result of an inventory fetch: the products by tag, the products by strain (two
  dicts of lists, whose keys are fixed when they are created) and all products.
\<close>

type_synonym inventory =
  "(string \<times> product list) list \<times> (string \<times> product list) list \<times> product list"

definition empty_by_tag :: "(string \<times> product list) list" where
  "empty_by_tag = [(''buds'', []), (''local'', []), (''carts'', []), (''edibs'', [])]"

definition empty_by_strain :: "(string \<times> product list) list" where
  "empty_by_strain = [(''indica'', []), (''sativa'', []), (''hybrid'', [])]"

text \<open>\<^verbatim>\<open>d[k].append(x)\<close> on a dict of lists, for a key that is present.\<close>

definition append_to :: "string \<Rightarrow> 'a \<Rightarrow> (string \<times> 'a list) list \<Rightarrow> (string \<times> 'a list) list" where
  "append_to k x d = map (\<lambda>(k', xs). if k' = k then (k', xs @ [x]) else (k', xs)) d"

text \<open>
  The product built from one row, as both loops of the source build it. The name is
  \<^verbatim>\<open>item.get('Name', item.get('Strain', 'Unknown'))\<close>.
\<close>

definition make_product :: "row \<Rightarrow> exn + product" where
  "make_product item =
     (let product_name = dict_get item ''Name'' (dict_get item ''Strain'' (PStr ''Unknown''))
      in case py_lower product_name of
           Inl e \<Rightarrow> Inl e
         | Inr lowered \<Rightarrow>
             (case py_lower (dict_get item ''Tag'' (PStr '''')) of
                Inl e \<Rightarrow> Inl e
              | Inr product_tag \<Rightarrow>
                  (case py_lower (dict_get item ''Type'' (PStr '''')) of
                     Inl e \<Rightarrow> Inl e
                   | Inr strain_type \<Rightarrow>
                       Inr \<lparr>p_name = product_name, p_key = replace_spaces lowered,
                            p_price = dict_get item ''Price'' (PInt 0),
                            p_stock = dict_get item ''Stock'' (PInt 0),
                            p_tag = product_tag, p_strain = strain_type,
                            p_weight = dict_get item ''Weight'' (PStr ''''),
                            p_brand = dict_get item ''Brand'' (PStr '''')\<rparr>)))"

text \<open>
  Filing a product under its tag and its strain. The loop of \<^verbatim>\<open>fetch_inventory\<close> tests
  \<^verbatim>\<open>product_tag in products_by_tag\<close>; the loop of \<^verbatim>\<open>_create_default_inventory\<close>
  tests \<^verbatim>\<open>product_tag and product_tag in products_by_tag\<close>. The empty string is not a
  key of either dict, so the two tests agree.
\<close>

definition file_product :: "product \<Rightarrow> inventory \<Rightarrow> inventory" where
  "file_product p acc =
     (case acc of (by_tag, by_strain, all_products) \<Rightarrow>
        ((if p_tag p \<noteq> [] \<and> map_of by_tag (p_tag p) \<noteq> None
          then append_to (p_tag p) p by_tag else by_tag),
         (if p_strain p \<noteq> [] \<and> map_of by_strain (p_strain p) \<noteq> None
          then append_to (p_strain p) p by_strain else by_strain),
         all_products @ [p]))"

text \<open>
  \<^verbatim>\<open>item['Stock'] <= 0\<close>: comparing a string with a number raises \<^verbatim>\<open>TypeError\<close>.
\<close>

definition out_of_stock :: "row \<Rightarrow> exn + bool" where
  "out_of_stock item =
     (case map_of item ''Stock'' of
        None \<Rightarrow> Inr True
      | Some (PInt n) \<Rightarrow> Inr (n \<le> 0)
      | Some (PStr s) \<Rightarrow> Inl (Exn TypeError ''<= not supported between str and int''))"

text \<open>The loop of \<^verbatim>\<open>fetch_inventory\<close> over the rows of the inventory sheet.\<close>

fun build_inventory :: "row list \<Rightarrow> inventory \<Rightarrow> exn + inventory" where
  "build_inventory [] acc = Inr acc"
| "build_inventory (item # items) acc =
     (case out_of_stock item of
        Inl e \<Rightarrow> Inl e
      | Inr True \<Rightarrow> build_inventory items acc
      | Inr False \<Rightarrow>
          (case make_product item of
             Inl e \<Rightarrow> Inl e
           | Inr p \<Rightarrow> build_inventory items (file_product p acc)))"

text \<open>config/constants.py: the catalog used when the sheet cannot be read.\<close>

definition DEFAULT_INVENTORY :: "row list" where
  "DEFAULT_INVENTORY =
     [[(''Name'', PStr ''Unknown Indica''), (''Type'', PStr ''indica''), (''Tag'', PStr ''buds''),
       (''Price'', PInt 2000), (''Stock'', PInt 5)],
      [(''Name'', PStr ''Unknown Sativa''), (''Type'', PStr ''sativa''), (''Tag'', PStr ''buds''),
       (''Price'', PInt 2000), (''Stock'', PInt 5)],
      [(''Name'', PStr ''Unknown Hybrid''), (''Type'', PStr ''hybrid''), (''Tag'', PStr ''buds''),
       (''Price'', PInt 2000), (''Stock'', PInt 5)],
      [(''Name'', PStr ''Local BG''), (''Type'', PStr ''''), (''Tag'', PStr ''local''),
       (''Price'', PInt 1000), (''Stock'', PInt 10)],
      [(''Name'', PStr ''Basic Cart''), (''Type'', PStr ''''), (''Tag'', PStr ''carts''),
       (''Brand'', PStr ''Generic''), (''Weight'', PStr ''1g''), (''Price'', PInt 1500),
       (''Stock'', PInt 3)],
      [(''Name'', PStr ''Basic Edible''), (''Type'', PStr ''hybrid''), (''Tag'', PStr ''edibs''),
       (''Price'', PInt 500), (''Stock'', PInt 5)]]"

text \<open>
  The loop of \<^verbatim>\<open>_create_default_inventory\<close>: every item of the catalog is taken,
  whatever its stock.
\<close>

fun build_default :: "row list \<Rightarrow> inventory \<Rightarrow> exn + inventory" where
  "build_default [] acc = Inr acc"
| "build_default (item # items) acc =
     (case make_product item of
        Inl e \<Rightarrow> Inl e
      | Inr p \<Rightarrow> build_default items (file_product p acc))"

subsection \<open>The manager and the remote service\<close>

text \<open>What the caches of the gateway hold: an inventory or the row of an order.\<close>

datatype cached = CachedInventory inventory | CachedOrder row

text \<open>
  The manager object, on top of the world and the throttler's record. \<open>'h\<close> is the type
  of worksheet handles. \<^verbatim>\<open>self.caches\<close> is a dict that holds exactly the four caches
  built by the constructor, one field each. The last two fields are not attributes of
  the object: they are the remote orders sheet, which the writes change.
\<close>

record 'h manager = throttled +
  sheet_client :: bool
  sheet :: "'h option"
  inventory_sheet :: "'h option"
  sheet_initialized :: bool
  inventory_cache :: "cached enhanced_cache"
  orders_cache :: "cached enhanced_cache"
  sheets_cache :: "cached enhanced_cache"
  drive_cache :: "cached enhanced_cache"
  remote_rows :: "pyval list list"
  write_attempts :: nat

definition init_manager :: "real \<Rightarrow> 'h manager" where
  "init_manager now =
     \<lparr>clock = now, slept = [], logs = [], last_request_time = [],
      sheet_client = False, sheet = None, inventory_sheet = None, sheet_initialized = False,
      inventory_cache = fresh_cache 20 300, orders_cache = fresh_cache 100 60,
      sheets_cache = fresh_cache 50 120, drive_cache = fresh_cache 30 600,
      remote_rows = [], write_attempts = 0\<rparr>"

text \<open>
  The remote service as the gateway meets it in one call: the outcome of each request
  (an exception, or what the request returns) and the values of \<^verbatim>\<open>random()\<close> that the
  call draws. \<open>auth_result\<close> stands for the whole of \<^verbatim>\<open>get_sheet_client\<close> when no
  client is held yet; \<open>write_result k\<close> is the outcome of a write to the orders sheet
  when \<open>k\<close> writes have been attempted before.
\<close>

record 'h gs_env =
  auth_result :: "exn option"
  open_result :: "exn option"
  sheet1_result :: "exn + 'h"
  add_orders_result :: "exn + 'h"
  inventory_ws_result :: "exn + 'h"
  add_inventory_result :: "exn + 'h"
  append_header_result :: "exn option"
  row_values_result :: "exn + string list"
  update_headers_result :: "exn option"
  get_all_records_result :: "exn + row list"
  col_values_result :: "exn + pyval list"
  write_result :: "nat \<Rightarrow> exn option"
  draw_init :: real
  draw_call :: real
  draw_retry :: "int \<Rightarrow> real"

text \<open>\<^verbatim>\<open>except Exception\<close> catches what derives from \<^verbatim>\<open>Exception\<close>.\<close>

definition caught :: "exn \<Rightarrow> bool" where
  "caught e = isinstance e [Exception]"

subsection \<open>initialize\_sheets\<close>

text \<open>
  The body of the \<^verbatim>\<open>try\<close> block is a chain of steps; a step goes on to the next one,
  returns from the function, or raises.
\<close>

datatype 'r step = Continue | Return 'r | Raise exn

definition and_then :: "'r step \<times> 's \<Rightarrow> ('s \<Rightarrow> 'r step \<times> 's) \<Rightarrow> 'r step \<times> 's" where
  "and_then r f = (case fst r of Continue \<Rightarrow> f (snd r) | Return x \<Rightarrow> r | Raise e \<Rightarrow> r)"

type_synonym 'h sheets = "'h option \<times> 'h option"

definition step_client ::
  "'h gs_env \<Rightarrow> ('h, 'z) manager_scheme \<Rightarrow> 'h sheets step \<times> ('h, 'z) manager_scheme" where
  "step_client env m =
     (if sheet_client m then (Continue, m)
      else (case auth_result env of
              None \<Rightarrow> (Continue, m\<lparr>sheet_client := True\<rparr>)
            | Some e \<Rightarrow>
                (Raise e, if caught e
                          then log_to ''errors'' ERROR (SheetStepFailed ''authenticate'' e) m
                          else m)))"

definition step_open ::
  "'h gs_env \<Rightarrow> ('h, 'z) manager_scheme \<Rightarrow> 'h sheets step \<times> ('h, 'z) manager_scheme" where
  "step_open env m =
     (case open_result env of
        None \<Rightarrow> (Continue, m)
      | Some e \<Rightarrow>
          if caught e
          then (Return (None, None), log_to ''errors'' ERROR (SheetStepFailed ''open'' e) m)
          else (Raise e, m))"

definition step_orders ::
  "'h gs_env \<Rightarrow> ('h, 'z) manager_scheme \<Rightarrow> 'h sheets step \<times> ('h, 'z) manager_scheme" where
  "step_orders env m =
     (case sheet1_result env of
        Inr h \<Rightarrow> (Continue, m\<lparr>sheet := Some h\<rparr>)
      | Inl e \<Rightarrow>
          if caught e then
            (case add_orders_result env of
               Inr h \<Rightarrow>
                 (Continue, (log_to ''errors'' ERROR (SheetStepFailed ''orders'' e) m)\<lparr>sheet := Some h\<rparr>)
             | Inl e2 \<Rightarrow>
                 if caught e2
                 then (Return (None, None),
                       log_to ''errors'' ERROR (SheetStepFailed ''create orders'' e2)
                         (log_to ''errors'' ERROR (SheetStepFailed ''orders'' e) m))
                 else (Raise e2, log_to ''errors'' ERROR (SheetStepFailed ''orders'' e) m))
          else (Raise e, m))"

definition step_inventory ::
  "'h gs_env \<Rightarrow> ('h, 'z) manager_scheme \<Rightarrow> 'h sheets step \<times> ('h, 'z) manager_scheme" where
  "step_inventory env m =
     (case inventory_ws_result env of
        Inr h \<Rightarrow> (Continue, m\<lparr>inventory_sheet := Some h\<rparr>)
      | Inl e \<Rightarrow>
          if caught e then
            (let m1 = log_to ''errors'' ERROR (SheetStepFailed ''inventory'' e) m
             in case add_inventory_result env of
                  Inr h \<Rightarrow>
                    (case append_header_result env of
                       None \<Rightarrow> (Continue, m1\<lparr>inventory_sheet := Some h\<rparr>)
                     | Some e2 \<Rightarrow>
                         if caught e2
                         then (Continue,
                               (log_to ''errors'' ERROR (SheetStepFailed ''create inventory'' e2) m1)
                                 \<lparr>inventory_sheet := Some h\<rparr>)
                         else (Raise e2, m1\<lparr>inventory_sheet := Some h\<rparr>))
                | Inl e2 \<Rightarrow>
                    if caught e2
                    then (Continue, log_to ''errors'' ERROR (SheetStepFailed ''create inventory'' e2) m1)
                    else (Raise e2, m1))
          else (Raise e, m))"

text \<open>\<^verbatim>\<open>SHEET_HEADERS\<close> has 13 columns.\<close>

definition expected_columns :: nat where
  "expected_columns = 13"

definition step_headers ::
  "'h gs_env \<Rightarrow> ('h, 'z) manager_scheme \<Rightarrow> 'h sheets step \<times> ('h, 'z) manager_scheme" where
  "step_headers env m =
     (case row_values_result env of
        Inr current_headers \<Rightarrow>
          if current_headers = [] \<or> length current_headers < expected_columns then
            (case update_headers_result env of
               None \<Rightarrow> (Continue, m)
             | Some e \<Rightarrow>
                 if caught e
                 then (Continue, log_to ''errors'' ERROR (SheetStepFailed ''headers'' e) m)
                 else (Raise e, m))
          else (Continue, m)
      | Inl e \<Rightarrow>
          if caught e
          then (Continue, log_to ''errors'' ERROR (SheetStepFailed ''headers'' e) m)
          else (Raise e, m))"

definition step_done :: "('h, 'z) manager_scheme \<Rightarrow> 'h sheets step \<times> ('h, 'z) manager_scheme" where
  "step_done m = (Return (sheet m, inventory_sheet m), m\<lparr>sheet_initialized := True\<rparr>)"

text \<open>
  The result is the pair \<^verbatim>\<open>(orders_sheet, inventory_sheet)\<close>, or an exception that
  \<^verbatim>\<open>except Exception\<close> does not catch.
\<close>

definition initialize_sheets ::
  "'h gs_env \<Rightarrow> ('h, 'z) manager_scheme \<Rightarrow> (exn + 'h sheets) \<times> ('h, 'z) manager_scheme" where
  "initialize_sheets env m =
     (if sheet_initialized m \<and> sheet m \<noteq> None \<and> inventory_sheet m \<noteq> None
      then (Inr (sheet m, inventory_sheet m), m)
      else
        (let r = and_then (and_then (and_then (and_then (and_then
                   (Continue, rate_limit_request ''sheets'' (draw_init env) m)
                   (step_client env)) (step_open env)) (step_orders env))
                   (step_inventory env)) (step_headers env)
         in case fst (and_then r step_done) of
              Return sheets \<Rightarrow> (Inr sheets, snd (and_then r step_done))
            | Raise e \<Rightarrow>
                if caught e
                then (Inr (None, None),
                      log_to ''errors'' ERROR (FailedToInitializeSheets e) (snd (and_then r step_done)))
                else (Inl e, snd (and_then r step_done))
            | Continue \<Rightarrow> (Inr (None, None), snd (and_then r step_done))))"

subsection \<open>The caches of the gateway\<close>

text \<open>
  \<^verbatim>\<open>if cache_type not in self.caches: cache_type = "inventory"\<close>, then
  \<^verbatim>\<open>self.caches[cache_type]\<close>.
\<close>

definition get_cache :: "string \<Rightarrow> ('h, 'z) manager_scheme \<Rightarrow> cached enhanced_cache" where
  "get_cache cache_type m =
     (if cache_type = ''orders'' then orders_cache m
      else if cache_type = ''sheets'' then sheets_cache m
      else if cache_type = ''drive'' then drive_cache m
      else inventory_cache m)"

definition put_cache ::
  "string \<Rightarrow> cached enhanced_cache \<Rightarrow> ('h, 'z) manager_scheme \<Rightarrow> ('h, 'z) manager_scheme" where
  "put_cache cache_type c m =
     (if cache_type = ''orders'' then m\<lparr>orders_cache := c\<rparr>
      else if cache_type = ''sheets'' then m\<lparr>sheets_cache := c\<rparr>
      else if cache_type = ''drive'' then m\<lparr>drive_cache := c\<rparr>
      else m\<lparr>inventory_cache := c\<rparr>)"

definition check_cache ::
  "string \<Rightarrow> string \<Rightarrow> real option \<Rightarrow> ('h, 'z) manager_scheme \<Rightarrow>
   (bool \<times> cached option) \<times> ('h, 'z) manager_scheme" where
  "check_cache cache_key cache_type max_age m =
     (let r = cache_get (get_cache cache_type m) cache_key max_age (clock m)
      in (fst r, put_cache cache_type (snd r) m))"

definition update_cache ::
  "string \<Rightarrow> cached option \<Rightarrow> string \<Rightarrow> real option \<Rightarrow> ('h, 'z) manager_scheme \<Rightarrow>
   cached option \<times> ('h, 'z) manager_scheme" where
  "update_cache cache_key data cache_type ttl m =
     (let r = cache_set (get_cache cache_type m) cache_key data ttl (clock m)
      in (fst r, put_cache cache_type (snd r) m))"

subsection \<open>fetch\_inventory\<close>

definition create_default_inventory ::
  "('h, 'z) manager_scheme \<Rightarrow> (exn + inventory) \<times> ('h, 'z) manager_scheme" where
  "create_default_inventory m =
     (case build_default DEFAULT_INVENTORY (empty_by_tag, empty_by_strain, []) of
        Inl e \<Rightarrow> (Inl e, m)
      | Inr catalog \<Rightarrow> (Inr catalog, log_to ''errors'' WARNING UsingDefaultInventory m))"

text \<open>
  \<^verbatim>\<open>default_inventory = self._create_default_inventory()\<close> followed by
  \<^verbatim>\<open>return self._update_cache("inventory_data", default_inventory, "inventory")\<close>.
\<close>

definition use_default_inventory ::
  "('h, 'z) manager_scheme \<Rightarrow> (exn + cached option) \<times> ('h, 'z) manager_scheme" where
  "use_default_inventory m =
     (case fst (create_default_inventory m) of
        Inl e \<Rightarrow> (Inl e, snd (create_default_inventory m))
      | Inr catalog \<Rightarrow>
          (let r = update_cache ''inventory_data'' (Some (CachedInventory catalog)) ''inventory'' None
                     (snd (create_default_inventory m))
           in (Inr (fst r), snd r)))"

text \<open>The \<^verbatim>\<open>try\<close> block of \<^verbatim>\<open>fetch_inventory\<close>.\<close>

definition fetch_inventory_try ::
  "'h gs_env \<Rightarrow> ('h, 'z) manager_scheme \<Rightarrow> (exn + cached option) \<times> ('h, 'z) manager_scheme" where
  "fetch_inventory_try env m =
     (case fst (initialize_sheets env m) of
        Inl e \<Rightarrow> (Inl e, snd (initialize_sheets env m))
      | Inr sheets \<Rightarrow>
          if snd sheets = None then use_default_inventory (snd (initialize_sheets env m))
          else
            (let m1 = rate_limit_request ''inventory'' (draw_call env) (snd (initialize_sheets env m))
             in case get_all_records_result env of
                  Inl e \<Rightarrow> (Inl e, m1)
                | Inr inventory_data \<Rightarrow>
                    (case build_inventory inventory_data (empty_by_tag, empty_by_strain, []) of
                       Inl e \<Rightarrow> (Inl e, m1)
                     | Inr result \<Rightarrow>
                         (let r = update_cache ''inventory_data'' (Some (CachedInventory result))
                                    ''inventory'' None m1
                          in (Inr (fst r), snd r)))))"

definition fetch_inventory ::
  "'h gs_env \<Rightarrow> ('h, 'z) manager_scheme \<Rightarrow> (exn + cached option) \<times> ('h, 'z) manager_scheme" where
  "fetch_inventory env m =
     (let c = check_cache ''inventory_data'' ''inventory'' None m
      in if fst (fst c) then (Inr (snd (fst c)), snd c)
         else (case fst (fetch_inventory_try env (snd c)) of
                 Inr result \<Rightarrow> fetch_inventory_try env (snd c)
               | Inl e \<Rightarrow>
                   if caught e
                   then use_default_inventory
                          (log_to ''errors'' ERROR (ErrorFetchingInventory e)
                             (snd (fetch_inventory_try env (snd c))))
                   else fetch_inventory_try env (snd c)))"

text \<open>
  The built-in catalog as \<^verbatim>\<open>_create_default_inventory\<close> builds it, and the property
  that every fixed tag and every fixed strain has at least one product.
\<close>

definition default_catalog :: inventory where
  "default_catalog =
     (case build_default DEFAULT_INVENTORY (empty_by_tag, empty_by_strain, []) of
        Inr catalog \<Rightarrow> catalog
      | Inl e \<Rightarrow> (empty_by_tag, empty_by_strain, []))"

definition stocked :: "(string \<times> product list) list \<Rightarrow> string \<Rightarrow> bool" where
  "stocked d k = (case map_of d k of Some (p # ps) \<Rightarrow> True | Some [] \<Rightarrow> False | None \<Rightarrow> False)"

definition every_category_stocked :: "inventory \<Rightarrow> bool" where
  "every_category_stocked catalog =
     (list_all (stocked (fst catalog)) [''buds'', ''local'', ''carts'', ''edibs''] \<and>
      list_all (stocked (fst (snd catalog))) [''indica'', ''sativa'', ''hybrid''])"

subsection \<open>add\_order\_to\_sheet\<close>

text \<open>The row is padded with empty strings, or cut, to the number of headers.\<close>

definition adjust_columns :: "pyval list \<Rightarrow> pyval list" where
  "adjust_columns order_data =
     (if length order_data \<noteq> expected_columns then
        (if length order_data < expected_columns
         then order_data @ replicate (expected_columns - length order_data) (PStr '''')
         else take expected_columns order_data)
      else order_data)"

text \<open>
  \<^verbatim>\<open>next_row = len(sheet.col_values(1)) + 1\<close>, or \<^verbatim>\<open>None\<close> when reading the column
  fails.
\<close>

definition find_next_row ::
  "'h gs_env \<Rightarrow> ('h, 'z) manager_scheme \<Rightarrow> (exn + nat option) \<times> ('h, 'z) manager_scheme" where
  "find_next_row env m =
     (case col_values_result env of
        Inr col_a \<Rightarrow> (Inr (Some (length col_a + 1)), m)
      | Inl e \<Rightarrow>
          if caught e then (Inr None, log_to ''errors'' ERROR (ErrorFindingNextRow e) m)
          else (Inl e, m))"

text \<open>
  The operation handed to the retrier: \<^verbatim>\<open>insert_row\<close> at the row found (a number that
  is not 0), \<^verbatim>\<open>append_row\<close> otherwise; it returns \<^verbatim>\<open>True\<close>.
\<close>

definition add_to_sheet ::
  "'h gs_env \<Rightarrow> pyval list \<Rightarrow> nat option \<Rightarrow> ('h, 'z) manager_scheme \<Rightarrow>
   (exn + bool) \<times> ('h, 'z) manager_scheme" where
  "add_to_sheet env order_data next_row m =
     (case write_result env (write_attempts m) of
        Some e \<Rightarrow> (Inl e, m\<lparr>write_attempts := write_attempts m + 1\<rparr>)
      | None \<Rightarrow>
          (Inr True,
           m\<lparr>write_attempts := write_attempts m + 1,
             remote_rows :=
               (case next_row of
                  Some n \<Rightarrow>
                    if n \<noteq> 0
                    then take (n - 1) (remote_rows m) @ [order_data] @ drop (n - 1) (remote_rows m)
                    else remote_rows m @ [order_data]
                | None \<Rightarrow> remote_rows m @ [order_data])\<rparr>))"

text \<open>The \<^verbatim>\<open>try\<close> block of \<^verbatim>\<open>add_order_to_sheet\<close>.\<close>

definition add_order_try ::
  "'h gs_env \<Rightarrow> pyval list \<Rightarrow> ('h, 'z) manager_scheme \<Rightarrow> (exn + bool) \<times> ('h, 'z) manager_scheme" where
  "add_order_try env order_data m =
     (case fst (initialize_sheets env m) of
        Inl e \<Rightarrow> (Inl e, snd (initialize_sheets env m))
      | Inr sheets \<Rightarrow>
          if fst sheets = None
          then (Inr False,
                log_to ''errors'' ERROR FailedInitializeForAddingOrder (snd (initialize_sheets env m)))
          else
            (let m1 = rate_limit_request ''sheets_write'' (draw_call env) (snd (initialize_sheets env m))
             in case fst (find_next_row env m1) of
                  Inl e \<Rightarrow> (Inl e, snd (find_next_row env m1))
                | Inr next_row \<Rightarrow>
                    (let r = run (RetryableOperation 3 [ConnectionError, TimeoutError, BrokenPipeError])
                               (add_to_sheet env (adjust_columns order_data) next_row)
                               (Some ''add_to_sheet'') (Some ''add_order_to_sheet'')
                               (draw_retry env) (snd (find_next_row env m1))
                     in case outcome r of
                          Inl e \<Rightarrow> (Inl e, world_after r)
                        | Inr success \<Rightarrow>
                            (Inr success,
                             if success
                             then (world_after r)
                                    \<lparr>orders_cache := cache_clear (orders_cache (world_after r)) None\<rparr>
                             else world_after r))))"

definition add_order_to_sheet ::
  "'h gs_env \<Rightarrow> pyval list \<Rightarrow> ('h, 'z) manager_scheme \<Rightarrow> (exn + bool) \<times> ('h, 'z) manager_scheme" where
  "add_order_to_sheet env order_data m =
     (case fst (add_order_try env order_data m) of
        Inr success \<Rightarrow> add_order_try env order_data m
      | Inl e \<Rightarrow>
          if caught e
          then (Inr False,
                log_to ''errors'' ERROR (FailedToAddOrder e) (snd (add_order_try env order_data m)))
          else add_order_try env order_data m)"

subsection \<open>get\_order\_details\<close>

text \<open>
  The first row whose \<^verbatim>\<open>Order ID\<close> is the identifier and whose \<^verbatim>\<open>Product\<close> is
  \<^verbatim>\<open>COMPLETE ORDER\<close>.
\<close>

definition find_order :: "string \<Rightarrow> row list \<Rightarrow> row option" where
  "find_order order_id orders =
     List.find (\<lambda>order. map_of order ''Order ID'' = Some (PStr order_id) \<and>
                         map_of order ''Product'' = Some (PStr ''COMPLETE ORDER'')) orders"

definition get_order_try ::
  "'h gs_env \<Rightarrow> string \<Rightarrow> ('h, 'z) manager_scheme \<Rightarrow>
   (exn + cached option) \<times> ('h, 'z) manager_scheme" where
  "get_order_try env order_id m =
     (case fst (initialize_sheets env m) of
        Inl e \<Rightarrow> (Inl e, snd (initialize_sheets env m))
      | Inr sheets \<Rightarrow>
          if fst sheets = None
          then (Inr None,
                log_to ''errors'' ERROR FailedToGetSheetForOrderDetails (snd (initialize_sheets env m)))
          else
            (let m1 = rate_limit_request ''sheets_read'' (draw_call env) (snd (initialize_sheets env m))
             in case get_all_records_result env of
                  Inl e \<Rightarrow> (Inl e, m1)
                | Inr orders \<Rightarrow>
                    (case find_order order_id orders of
                       Some order \<Rightarrow>
                         (let r = update_cache (''order_'' @ order_id) (Some (CachedOrder order))
                                    ''orders'' None m1
                          in (Inr (fst r), snd r))
                     | None \<Rightarrow>
                         (let r = update_cache (''order_'' @ order_id) None ''orders'' (Some 30) m1
                          in (Inr (fst r), snd r)))))"

definition get_order_details ::
  "'h gs_env \<Rightarrow> string \<Rightarrow> ('h, 'z) manager_scheme \<Rightarrow>
   (exn + cached option) \<times> ('h, 'z) manager_scheme" where
  "get_order_details env order_id m =
     (let c = check_cache (''order_'' @ order_id) ''orders'' (Some 30) m
      in if fst (fst c) then (Inr (snd (fst c)), snd c)
         else (case fst (get_order_try env order_id (snd c)) of
                 Inr result \<Rightarrow> get_order_try env order_id (snd c)
               | Inl e \<Rightarrow>
                   if caught e
                   then (Inr None,
                         log_to ''errors'' ERROR (FailedToGetOrderDetails e)
                           (snd (get_order_try env order_id (snd c))))
                   else get_order_try env order_id (snd c)))"

text \<open>The four caches of a manager, for statements about what a call leaves unchanged.\<close>

definition caches_of ::
  "('h, 'z) manager_scheme \<Rightarrow>
   cached enhanced_cache \<times> cached enhanced_cache \<times> cached enhanced_cache \<times> cached enhanced_cache"
where
  "caches_of m = (inventory_cache m, orders_cache m, sheets_cache m, drive_cache m)"

section \<open>Concrete scenarios\<close>

text \<open>
  Inputs on which the statements below are evaluated: a cache holding one entry written
  at time 1000 with a time-to-live of 60 seconds; the calls of the eviction scenario
  (capacity 2: set A, set B, get A); an empty world; an operation that always fails with
  a connection error and one that fails with a value error.
\<close>

definition one_entry :: "nat enhanced_cache" where
  "one_entry = snd (cache_set (fresh_cache 2 60) ''k'' (Some 7) (Some 60) 1000)"

definition set_A_set_B_get_A :: "nat cache_op list" where
  "set_A_set_B_get_A =
     [OpSet ''A'' (Some 1) None 0, OpSet ''B'' (Some 2) None 1, OpGet ''A'' None 2]"

definition zero_capacity_A :: "nat enhanced_cache" where
  "zero_capacity_A = run_ops (fresh_cache 0 60) [OpSet ''A'' (Some 1) None 0]"

definition empty_world :: world where
  "empty_world = \<lparr>clock = 0, slept = [], logs = []\<rparr>"

definition always_down :: "world \<Rightarrow> (exn + bool) \<times> world" where
  "always_down w = (Inl (Exn ConnectionError ''down''), w)"

definition bad_input :: "world \<Rightarrow> (exn + bool) \<times> world" where
  "bad_input w = (Inl (Exn ValueError ''bad''), w)"

text \<open>A throttler that has recorded no request, at clock reading 1000.\<close>

definition idle_throttle :: throttled where
  "idle_throttle = \<lparr>clock = 1000, slept = [], logs = [], last_request_time = []\<rparr>"

text \<open>
  A service that cannot be reached: the credentials file is missing, so no sheet is
  opened; and a service whose sheets open but whose reads fail. Every other request
  succeeds, every draw is 1/2.
\<close>

definition online_env :: "nat gs_env" where
  "online_env =
     \<lparr>auth_result = None, open_result = None, sheet1_result = Inr 1,
      add_orders_result = Inr 1, inventory_ws_result = Inr 2, add_inventory_result = Inr 2,
      append_header_result = None, row_values_result = Inr [], update_headers_result = None,
      get_all_records_result = Inr [], col_values_result = Inr [],
      write_result = (\<lambda>k. None), draw_init = 1 / 2, draw_call = 1 / 2,
      draw_retry = (\<lambda>k. 1 / 2)\<rparr>"

definition offline_env :: "nat gs_env" where
  "offline_env = online_env\<lparr>auth_result := Some (Exn FileNotFoundError ''credentials'')\<rparr>"

definition read_fails_env :: "nat gs_env" where
  "read_fails_env = online_env\<lparr>get_all_records_result := Inl (Exn APIError ''quota'')\<rparr>"

text \<open>
  An order as \<^verbatim>\<open>get_all_records\<close> returns it, and a manager whose orders cache holds
  that order under \<^verbatim>\<open>order_A1\<close>, written at clock reading 1000 with the default
  time-to-live.
\<close>

definition sample_order :: row where
  "sample_order = [(''Order ID'', PStr ''A1''), (''Product'', PStr ''COMPLETE ORDER'')]"

definition order_cached :: "nat manager" where
  "order_cached =
     snd (update_cache ''order_A1'' (Some (CachedOrder sample_order)) ''orders'' None
            (init_manager 1000))"

section \<open>Properties of the cache\<close>

subsection \<open>The lockstep invariant is preserved by every operation\<close>

lemma deque_append_room: "length xs < m \<Longrightarrow> deque_append m xs x = xs @ [x]"
  by (simp add: deque_append_def Let_def)

lemma length_alist_update:
  "length (AList.update k v al) = (if k \<in> fst ` set al then length al else Suc (length al))"
  by (induct al) auto

lemma map_of_None_iff: "map_of al k = None \<longleftrightarrow> k \<notin> fst ` set al"
  by (simp add: map_of_eq_None_iff)

lemma keys_delete: "fst ` set (AList.delete k al) = fst ` set al - {k}"
  by (auto simp: AList.delete_eq image_iff)

lemma length_keys: "distinct (map fst al) \<Longrightarrow> length al = card (fst ` set al)"
  by (metis distinct_card length_map set_map)

lemma inv_length: "cache_inv c \<Longrightarrow> length (access_order c) = length (cache c)"
  by (metis cache_inv_def resident_def distinct_card length_keys)

lemma resident_remove_entry: "resident (remove_entry c key) = resident c - {key}"
  by (auto simp: remove_entry_def resident_def Let_def keys_delete map_of_None_iff)

lemma access_order_remove_entry:
  "access_order (remove_entry c key) = remove1 key (access_order c)"
  by (simp add: remove_entry_def Let_def remove1_idem)

lemma max_items_remove_entry: "max_items (remove_entry c key) = max_items c"
  by (simp add: remove_entry_def Let_def)

lemma distinct_remove_entry:
  "distinct (map fst (cache c)) \<Longrightarrow> distinct (map fst (cache (remove_entry c key)))"
  by (simp add: remove_entry_def Let_def AList.distinct_delete)

lemma inv_remove_entry:
  assumes "cache_inv c"
  shows "cache_inv (remove_entry c key)"
proof -
  let ?c = "remove_entry c key"
  have d: "distinct (map fst (cache ?c))"
    using assms by (simp add: distinct_remove_entry cache_inv_def)
  have r: "resident ?c = resident c - {key}" by (rule resident_remove_entry)
  have fin: "finite (resident c)" by (simp add: resident_def)
  have "length (cache ?c) = card (resident ?c)"
    using d by (simp add: length_keys resident_def)
  also have "\<dots> \<le> card (resident c)"
    unfolding r using fin by (simp add: card_Diff1_le)
  also have "\<dots> = length (cache c)"
    using assms by (simp add: length_keys resident_def cache_inv_def)
  finally have l: "length (cache ?c) \<le> max_items ?c"
    using assms by (simp add: cache_inv_def max_items_remove_entry)
  show ?thesis
    using assms d l r
    by (simp add: cache_inv_def access_order_remove_entry)
qed

lemma inv_evict_lru: "cache_inv c \<Longrightarrow> cache_inv (evict_lru c)"
  by (simp add: evict_lru_def inv_remove_entry split: list.splits)

lemma update_access_order_eq:
  "update_access_order c key =
     c\<lparr>access_order := deque_append (max_items c) (remove1 key (access_order c)) key\<rparr>"
  by (simp add: update_access_order_def Let_def remove1_idem)

lemma inv_touch:
  assumes d: "distinct (map fst (cache c))" and a: "distinct (access_order c)"
    and s: "set (access_order c) - {key} = resident c - {key}" and k: "key \<in> resident c"
    and l: "length (cache c) \<le> max_items c"
  shows "cache_inv (update_access_order c key)"
    and "access_order (update_access_order c key) = remove1 key (access_order c) @ [key]"
proof -
  let ?ao = "remove1 key (access_order c)"
  have s1: "set ?ao = resident c - {key}" using a s by simp
  have "length ?ao = card (resident c - {key})"
    using a s1 by (metis distinct_card distinct_remove1)
  also have "\<dots> < card (resident c)"
    using k by (intro card_Diff1_less) (simp_all add: resident_def)
  also have "\<dots> = length (cache c)"
    using d by (simp add: length_keys resident_def)
  finally have "length ?ao < max_items c" using l by simp
  then have e: "deque_append (max_items c) ?ao key = ?ao @ [key]"
    by (rule deque_append_room)
  show "access_order (update_access_order c key) = ?ao @ [key]"
    by (simp add: update_access_order_eq e)
  show "cache_inv (update_access_order c key)"
    using d a l k s1 by (auto simp: cache_inv_def update_access_order_eq e resident_def)
qed

lemma inv_get: "cache_inv c \<Longrightarrow> cache_inv (snd (cache_get c key dflt now))"
proof -
  assume i: "cache_inv c"
  show ?thesis
  proof (cases "map_of (cache c) key")
    case None
    then show ?thesis using i by (simp add: cache_get_def cache_inv_def resident_def)
  next
    case (Some e)
    then have k: "key \<in> resident c"
      by (metis map_of_None_iff option.distinct(1) resident_def)
    have t: "cache_inv (update_access_order c key)"
      using i k by (intro inv_touch) (auto simp: cache_inv_def)
    have r: "cache_inv (remove_entry c key)" using i by (rule inv_remove_entry)
    show ?thesis using Some t r
      by (auto simp: cache_get_def Let_def cache_inv_def resident_def)
  qed
qed

lemma inv_clear: "cache_inv c \<Longrightarrow> cache_inv (cache_clear c key)"
proof -
  assume i: "cache_inv c"
  have e: "cache_inv (c\<lparr>cache := [], access_order := []\<rparr>)"
    by (simp add: cache_inv_def resident_def)
  have r: "\<And>k. map_of (cache c) k \<noteq> None \<Longrightarrow>
     (let c1 = c\<lparr>cache := AList.delete k (cache c)\<rparr>
      in if k \<in> set (access_order c1)
         then c1\<lparr>access_order := remove1 k (access_order c1)\<rparr> else c1) = remove_entry c k"
    by (simp add: remove_entry_def Let_def)
  show ?thesis
    using i e r inv_remove_entry [OF i]
    by (auto simp: cache_clear_def split: option.splits)
qed

lemma set_props:
  assumes i: "cache_inv c" and m: "0 < max_items c"
  shows "cache_inv (snd (cache_set c key val ttl now))"
    and "access_order (snd (cache_set c key val ttl now)) =
           remove1 key (access_order
             (if length (cache c) \<ge> max_items c \<and> map_of (cache c) key = None
              then evict_lru c else c)) @ [key]"
proof -
  define c1 where "c1 = (if length (cache c) \<ge> max_items c \<and> map_of (cache c) key = None
                then evict_lru c else c)"
  define c2 where "c2 = c1\<lparr>cache := AList.update key
                 \<lparr>e_data = val, e_timestamp = Some now, e_ttl = Some (py_or ttl (default_ttl c1))\<rparr>
                 (cache c1)\<rparr>"
  have res: "snd (cache_set c key val ttl now) = update_access_order c2 key"
    by (simp add: cache_set_def c1_def c2_def Let_def)
  have i1: "cache_inv c1" using i by (simp add: c1_def inv_evict_lru)
  have m1: "max_items c1 = max_items c"
    by (simp add: c1_def evict_lru_def max_items_remove_entry split: list.splits)
  have room: "key \<notin> resident c1 \<Longrightarrow> length (cache c1) < max_items c1"
  proof -
    assume n: "key \<notin> resident c1"
    show ?thesis
    proof (cases "length (cache c) \<ge> max_items c \<and> map_of (cache c) key = None")
      case True
      then have ne: "access_order c \<noteq> []" using i m inv_length [OF i] by auto
      then obtain x xs where ao: "access_order c = x # xs" by (cases "access_order c") auto
      then have c1e: "c1 = remove_entry c x" using True by (simp add: c1_def evict_lru_def)
      have xin: "x \<in> resident c" using i ao by (auto simp: cache_inv_def)
      have "length (cache c1) = card (resident c1)"
        using i1 by (simp add: length_keys resident_def cache_inv_def)
      also have "\<dots> < card (resident c)"
        unfolding c1e resident_remove_entry using xin
        by (intro card_Diff1_less) (simp_all add: resident_def)
      also have "\<dots> = length (cache c)"
        using i by (simp add: length_keys resident_def cache_inv_def)
      finally show ?thesis using i m1 by (simp add: cache_inv_def)
    next
      case False
      then have "c1 = c" by (auto simp: c1_def)
      with False n i show ?thesis
        by (auto simp: map_of_None_iff resident_def cache_inv_def)
    qed
  qed
  have d2: "distinct (map fst (cache c2))"
    using i1 by (simp add: c2_def AList.distinct_update cache_inv_def)
  have r2: "resident c2 = insert key (resident c1)"
    by (simp add: c2_def resident_def AList.dom_update)
  have l2: "length (cache c2) \<le> max_items c2"
    using i1 room by (auto simp: c2_def length_alist_update cache_inv_def resident_def)
  have a2: "distinct (access_order c2)" using i1 by (simp add: c2_def cache_inv_def)
  have s2: "set (access_order c2) - {key} = resident c2 - {key}"
    using i1 r2 by (auto simp: c2_def cache_inv_def)
  have k2: "key \<in> resident c2" using r2 by simp
  show "cache_inv (snd (cache_set c key val ttl now))"
    unfolding res using d2 a2 s2 k2 l2 by (rule inv_touch(1))
  have "access_order (update_access_order c2 key) = remove1 key (access_order c2) @ [key]"
    using d2 a2 s2 k2 l2 by (rule inv_touch(2))
  then show "access_order (snd (cache_set c key val ttl now)) =
           remove1 key (access_order
             (if length (cache c) \<ge> max_items c \<and> map_of (cache c) key = None
              then evict_lru c else c)) @ [key]"
    by (simp add: res c2_def c1_def)
qed

lemmas inv_set = set_props(1)

lemma run_ops_snoc: "run_ops c (ops @ [op]) = apply_op (run_ops c ops) op"
  by (simp add: run_ops_def)

lemma run_ops_Nil: "run_ops c [] = c"
  by (simp add: run_ops_def)

lemma max_items_get: "max_items (snd (cache_get c key dflt now)) = max_items c"
  by (simp add: cache_get_def Let_def max_items_remove_entry update_access_order_eq
      split: option.splits)

lemma max_items_evict: "max_items (evict_lru c) = max_items c"
  by (simp add: evict_lru_def max_items_remove_entry split: list.splits)

lemma max_items_set: "max_items (snd (cache_set c key val ttl now)) = max_items c"
  by (simp add: cache_set_def Let_def max_items_evict update_access_order_eq)

lemma max_items_clear: "max_items (cache_clear c key) = max_items c"
  by (simp add: cache_clear_def Let_def split: option.splits)

lemma max_items_apply_op: "max_items (apply_op c op) = max_items c"
  by (cases op) (simp_all add: max_items_get max_items_set max_items_clear)

lemma max_items_run_ops: "max_items (run_ops c ops) = max_items c"
  by (induction ops rule: rev_induct) (simp_all add: run_ops_snoc run_ops_Nil max_items_apply_op)

lemma inv_apply_op: "cache_inv c \<Longrightarrow> 0 < max_items c \<Longrightarrow> cache_inv (apply_op c op)"
  by (cases op) (simp_all add: inv_get inv_set inv_clear)

lemma inv_fresh: "cache_inv (fresh_cache n d)"
  by (simp add: cache_inv_def fresh_cache_def init_cache_def resident_def)

lemma inv_run_ops:
  "cache_inv c \<Longrightarrow> 0 < max_items c \<Longrightarrow> cache_inv (run_ops c ops)"
  by (induction ops rule: rev_induct)
     (simp_all add: run_ops_snoc run_ops_Nil inv_apply_op max_items_run_ops)

subsection \<open>The recency sequence is ordered by last use\<close>

lemma last_use_snoc:
  "last_use key (ops @ [op]) = (if touches key op then Suc (length ops) else last_use key ops)"
  by (simp add: last_use_def)

lemma sorted_wrt_remove1: "sorted_wrt P xs \<Longrightarrow> sorted_wrt P (remove1 x xs)"
  by (induction xs) (auto dest: notin_set_remove1)

lemma sorted_wrt_tl: "sorted_wrt P xs \<Longrightarrow> sorted_wrt P (tl xs)"
  by (cases xs) auto

lemma access_order_evict: "access_order (evict_lru c) = tl (access_order c)"
  by (simp add: evict_lru_def access_order_remove_entry split: list.splits)

lemma resident_evict:
  "resident (evict_lru c) = (case access_order c of [] \<Rightarrow> resident c | x # _ \<Rightarrow> resident c - {x})"
  by (simp add: evict_lru_def resident_remove_entry split: list.splits)

text \<open>
  One call keeps the recency sequence ordered by last use. \<open>f\<close> is the last use before
  the call, \<open>N\<close> the number of calls so far, \<open>g\<close> the last use after the call.
\<close>

lemma lru_step:
  fixes f g :: "string \<Rightarrow> nat"
  assumes i: "cache_inv c" and m: "0 < max_items c"
    and s: "sorted_wrt (\<lambda>a b. f a < f b) (access_order c)"
    and b: "\<forall>k\<in>set (access_order c). f k \<le> N"
    and g: "\<And>k. g k = (if touches k op then Suc N else f k)"
  shows "sorted_wrt (\<lambda>a b. g a < g b) (access_order (apply_op c op)) \<and>
         (\<forall>k\<in>set (access_order (apply_op c op)). g k \<le> Suc N)"
proof -
  have keep: "\<And>ys. sorted_wrt (\<lambda>a b. f a < f b) ys \<Longrightarrow> set ys \<subseteq> set (access_order c) \<Longrightarrow>
      \<forall>k\<in>set ys. \<not> touches k op \<Longrightarrow>
      sorted_wrt (\<lambda>a b. g a < g b) ys \<and> (\<forall>k\<in>set ys. g k \<le> Suc N)"
  proof -
    fix ys assume 1: "sorted_wrt (\<lambda>a b. f a < f b) ys" and 2: "set ys \<subseteq> set (access_order c)"
      and 3: "\<forall>k\<in>set ys. \<not> touches k op"
    have "sorted_wrt (\<lambda>a b. g a < g b) ys"
      using 1 3 by (elim sorted_wrt_mono_rel [rotated]) (simp add: g)
    moreover have "\<forall>k\<in>set ys. g k \<le> Suc N" using 2 3 b by (auto simp: g intro: le_SucI)
    ultimately show "sorted_wrt (\<lambda>a b. g a < g b) ys \<and> (\<forall>k\<in>set ys. g k \<le> Suc N)" by simp
  qed
  have snoc: "\<And>ys key. sorted_wrt (\<lambda>a b. f a < f b) ys \<Longrightarrow> set ys \<subseteq> set (access_order c) \<Longrightarrow>
      \<forall>k\<in>set ys. \<not> touches k op \<Longrightarrow> touches key op \<Longrightarrow>
      sorted_wrt (\<lambda>a b. g a < g b) (ys @ [key]) \<and> (\<forall>k\<in>set (ys @ [key]). g k \<le> Suc N)"
  proof -
    fix ys key assume 1: "sorted_wrt (\<lambda>a b. f a < f b) ys" and 2: "set ys \<subseteq> set (access_order c)"
      and 3: "\<forall>k\<in>set ys. \<not> touches k op" and 4: "touches key op"
    from keep [OF 1 2 3] have k: "sorted_wrt (\<lambda>a b. g a < g b) ys" "\<forall>k\<in>set ys. g k \<le> Suc N"
      by simp_all
    have "\<forall>k\<in>set ys. g k < g key" using 2 3 4 b by (auto simp: g intro: le_imp_less_Suc)
    with k 4 show "sorted_wrt (\<lambda>a b. g a < g b) (ys @ [key]) \<and> (\<forall>k\<in>set (ys @ [key]). g k \<le> Suc N)"
      by (auto simp: sorted_wrt_append g)
  qed
  have d: "distinct (access_order c)" using i by (simp add: cache_inv_def)
  show ?thesis
  proof (cases op)
    case (OpGet key dflt now)
    show ?thesis
    proof (cases "map_of (cache c) key")
      case None
      then have "key \<notin> set (access_order c)"
        using i by (simp add: cache_inv_def resident_def map_of_None_iff)
      then have "\<forall>k\<in>set (access_order c). \<not> touches k op" using OpGet by auto
      from keep [OF s subset_refl this] show ?thesis
        using OpGet None by (simp add: cache_get_def)
    next
      case (Some e)
      then have kin: "key \<in> resident c"
        by (metis map_of_None_iff option.distinct(1) resident_def)
      have t: "access_order (update_access_order c key) = remove1 key (access_order c) @ [key]"
        using i kin by (intro inv_touch(2)) (auto simp: cache_inv_def)
      have u: "\<forall>k\<in>set (remove1 key (access_order c)). \<not> touches k op"
        using d OpGet by auto
      have sub: "set (remove1 key (access_order c)) \<subseteq> set (access_order c)"
        by (rule set_remove1_subset)
      have srt: "sorted_wrt (\<lambda>a b. f a < f b) (remove1 key (access_order c))"
        using s by (rule sorted_wrt_remove1)
      have tk: "touches key op" using OpGet by simp
      show ?thesis
        using keep [OF srt sub u] snoc [OF srt sub u tk] OpGet Some t
        by (simp add: cache_get_def Let_def access_order_remove_entry)
    qed
  next
    case (OpSet key val ttl now)
    let ?c1 = "if length (cache c) \<ge> max_items c \<and> map_of (cache c) key = None
              then evict_lru c else c"
    have t: "access_order (apply_op c op) = remove1 key (access_order ?c1) @ [key]"
      using OpSet set_props(2) [OF i m] by simp
    have s1: "sorted_wrt (\<lambda>a b. f a < f b) (access_order ?c1)"
      using s by (simp add: access_order_evict sorted_wrt_tl)
    have sub1: "set (access_order ?c1) \<subseteq> set (access_order c)"
      by (cases "access_order c") (auto simp: access_order_evict)
    have d1: "distinct (access_order ?c1)"
      using d by (simp add: access_order_evict distinct_tl)
    have srt: "sorted_wrt (\<lambda>a b. f a < f b) (remove1 key (access_order ?c1))"
      using s1 by (rule sorted_wrt_remove1)
    have sub: "set (remove1 key (access_order ?c1)) \<subseteq> set (access_order c)"
      using sub1 set_remove1_subset by fast
    have u: "\<forall>k\<in>set (remove1 key (access_order ?c1)). \<not> touches k op"
      using d1 OpSet by auto
    have tk: "touches key op" using OpSet by simp
    show ?thesis using snoc [OF srt sub u tk] t by simp
  next
    case (OpClear key)
    have u: "\<And>ys. \<forall>k\<in>set ys. \<not> touches k op" using OpClear by simp
    have e: "sorted_wrt (\<lambda>a b. g a < g b) [] \<and> (\<forall>k\<in>set ([]::string list). g k \<le> Suc N)" by simp
    have r: "\<And>k. sorted_wrt (\<lambda>a b. g a < g b) (remove1 k (access_order c)) \<and>
                 (\<forall>x\<in>set (remove1 k (access_order c)). g x \<le> Suc N)"
      using keep [OF sorted_wrt_remove1 [OF s] set_remove1_subset u] by simp
    have a: "sorted_wrt (\<lambda>a b. g a < g b) (access_order c) \<and>
                 (\<forall>x\<in>set (access_order c). g x \<le> Suc N)"
      using keep [OF s subset_refl u] by simp
    show ?thesis using e r a OpClear
      by (auto simp: cache_clear_def Let_def split: option.splits)
  qed
qed

lemma lru_sorted:
  assumes "0 < n"
  shows "sorted_wrt (\<lambda>a b. last_use a ops < last_use b ops) (access_order (run_ops (fresh_cache n d) ops)) \<and>
         (\<forall>k\<in>set (access_order (run_ops (fresh_cache n d) ops)). last_use k ops \<le> length ops)"
proof (induction ops rule: rev_induct)
  case Nil
  then show ?case by (simp add: run_ops_Nil fresh_cache_def init_cache_def)
next
  case (snoc op ops)
  have m: "max_items (fresh_cache n d) = n" by (simp add: fresh_cache_def init_cache_def)
  have i: "cache_inv (run_ops (fresh_cache n d) ops)"
    using assms by (intro inv_run_ops inv_fresh) (simp add: m)
  have mm: "0 < max_items (run_ops (fresh_cache n d) ops)"
    using assms by (simp add: max_items_run_ops m)
  show ?case
    using lru_step [OF i mm conjunct1 [OF snoc.IH] conjunct2 [OF snoc.IH],
        of "\<lambda>k. last_use k (ops @ [op])" op]
    by (simp add: run_ops_snoc last_use_snoc)
qed

subsection \<open>Lookups and the time-to-live boundary\<close>

lemma get_hit:
  assumes "map_of (cache c) key = Some e" "e_timestamp e = Some t0" "e_ttl e = Some T"
    "now - t0 \<le> T"
  shows "cache_get c key d now =
     ((True, e_data e), (update_access_order c key)\<lparr>hits := hits c + 1\<rparr>)"
  using assms by (simp add: cache_get_def Let_def update_access_order_def)

lemma get_expired:
  assumes "map_of (cache c) key = Some e" "e_timestamp e = Some t0" "e_ttl e = Some T"
    "now - t0 > T"
  shows "cache_get c key d now =
     ((False, None), (remove_entry c key)\<lparr>misses := misses c + 1\<rparr>)"
  using assms by (simp add: cache_get_def Let_def remove_entry_def)

lemma get_absent:
  assumes "map_of (cache c) key = None"
  shows "cache_get c key d now = ((False, None), c\<lparr>misses := misses c + 1\<rparr>)"
  using assms by (simp add: cache_get_def)

lemma one_entry_eq:
  "one_entry =
     \<lparr>cache = [(''k'', \<lparr>e_data = Some 7, e_timestamp = Some 1000, e_ttl = Some 60\<rparr>)],
      access_order = [''k''], hits = 0, misses = 0, max_items = 2, default_ttl = 60\<rparr>"
  by (simp add: one_entry_def cache_set_def fresh_cache_def init_cache_def
      update_access_order_def Let_def deque_append_def py_or_def)

text \<open>
  Claim C4. Let the entry of \<open>key\<close> carry the timestamp \<open>t0\<close> and the time-to-live
  \<open>T\<close>. A \<open>get\<close> at time \<open>now\<close> with \<open>now - t0 \<le> T\<close> (the boundary \<open>now - t0 = T\<close>
  included, the comparison being strict) returns \<open>(True, value)\<close>, adds one to the hit
  counter and leaves the entry map as it is. A \<open>get\<close> with \<open>now - t0 > T\<close> returns
  \<open>(False, None)\<close>, adds one to the miss counter and removes the entry and its recency
  record. A \<open>get\<close> of an absent key returns \<open>(False, None)\<close>, adds one to the miss
  counter and changes nothing else.
\<close>

theorem C4_get_ttl_boundary:
  fixes c :: "'v enhanced_cache"
  shows
  "(map_of (cache c) key = Some e \<and> e_timestamp e = Some t0 \<and> e_ttl e = Some T \<and> now - t0 \<le> T \<longrightarrow>
      fst (cache_get c key d now) = (True, e_data e) \<and>
      hits (snd (cache_get c key d now)) = hits c + 1 \<and>
      misses (snd (cache_get c key d now)) = misses c \<and>
      cache (snd (cache_get c key d now)) = cache c) \<and>
   (map_of (cache c) key = Some e \<and> e_timestamp e = Some t0 \<and> e_ttl e = Some T \<and> now - t0 > T \<longrightarrow>
      fst (cache_get c key d now) = (False, None) \<and>
      misses (snd (cache_get c key d now)) = misses c + 1 \<and>
      hits (snd (cache_get c key d now)) = hits c \<and>
      map_of (cache (snd (cache_get c key d now))) key = None \<and>
      cache (snd (cache_get c key d now)) = AList.delete key (cache c) \<and>
      access_order (snd (cache_get c key d now)) = remove1 key (access_order c)) \<and>
   (map_of (cache c) key = None \<longrightarrow>
      fst (cache_get c key d now) = (False, None) \<and>
      misses (snd (cache_get c key d now)) = misses c + 1 \<and>
      hits (snd (cache_get c key d now)) = hits c \<and>
      cache (snd (cache_get c key d now)) = cache c \<and>
      access_order (snd (cache_get c key d now)) = access_order c)"
  by (auto simp: get_hit get_expired get_absent update_access_order_def remove_entry_def
      AList.delete_conv' Let_def remove1_idem)

text \<open>
  The entry written at time 1000 with a time-to-live of 60: a hit at 1060, a miss with
  removal at 1061, and a miss for a key that was never written.
\<close>

theorem C4_get_ttl_boundary_witness:
  "fst (cache_get one_entry ''k'' None 1060) = (True, Some 7) \<and>
   hits (snd (cache_get one_entry ''k'' None 1060)) = 1 \<and>
   cache (snd (cache_get one_entry ''k'' None 1060)) = cache one_entry \<and>
   fst (cache_get one_entry ''k'' None 1061) = (False, None) \<and>
   misses (snd (cache_get one_entry ''k'' None 1061)) = 1 \<and>
   cache (snd (cache_get one_entry ''k'' None 1061)) = [] \<and>
   access_order (snd (cache_get one_entry ''k'' None 1061)) = [] \<and>
   fst (cache_get one_entry ''z'' None 1061) = (False, None) \<and>
   misses (snd (cache_get one_entry ''z'' None 1061)) = 1"
  using
    C4_get_ttl_boundary [of one_entry "''k''"
      "\<lparr>e_data = Some 7, e_timestamp = Some 1000, e_ttl = Some 60\<rparr>" 1000 60 1060 None]
    C4_get_ttl_boundary [of one_entry "''k''"
      "\<lparr>e_data = Some 7, e_timestamp = Some 1000, e_ttl = Some 60\<rparr>" 1000 60 1061 None]
    C4_get_ttl_boundary [of one_entry "''z''"
      "\<lparr>e_data = Some 7, e_timestamp = Some 1000, e_ttl = Some 60\<rparr>" 1000 60 1061 None]
  by (simp add: one_entry_eq)

subsection \<open>Eviction of the least recently used key\<close>

lemma resident_set:
  "resident (snd (cache_set c key val ttl now)) =
     insert key (resident (if length (cache c) \<ge> max_items c \<and> map_of (cache c) key = None
                           then evict_lru c else c))"
  by (simp add: cache_set_def Let_def update_access_order_eq resident_def AList.dom_update)

lemma set_A_set_B_get_A_state:
  "run_ops (fresh_cache 2 60) set_A_set_B_get_A =
   \<lparr>cache = [(''A'', \<lparr>e_data = Some 1, e_timestamp = Some 0, e_ttl = Some 60\<rparr>),
              (''B'', \<lparr>e_data = Some 2, e_timestamp = Some 1, e_ttl = Some 60\<rparr>)],
     access_order = [''B'', ''A''], hits = 1, misses = 0, max_items = 2, default_ttl = 60\<rparr>"
  by (simp add: set_A_set_B_get_A_def run_ops_def cache_set_def cache_get_def fresh_cache_def
      init_cache_def evict_lru_def update_access_order_def Let_def deque_append_def py_or_def)

lemma zero_capacity_A_eq:
  "zero_capacity_A =
   \<lparr>cache = [(''A'', \<lparr>e_data = Some 1, e_timestamp = Some 0, e_ttl = Some 60\<rparr>)],
     access_order = [], hits = 0, misses = 0, max_items = 0, default_ttl = 60\<rparr>"
  by (simp add: zero_capacity_A_def run_ops_def cache_set_def fresh_cache_def init_cache_def
      evict_lru_def update_access_order_def Let_def deque_append_def py_or_def)

text \<open>
  Claim C5, as amended. Take a cache of capacity at least 1, in the state \<open>c\<close> that a
  list \<open>ops\<close> of calls leaves a fresh cache in. If \<open>c\<close> is at capacity (the guard of
  \<open>set\<close>: the number of entries is not below \<open>max_items\<close>) and \<open>key\<close> is not resident,
  then the recency sequence is not empty, its head is a resident key whose last get or
  set is older than that of every other resident key, and after \<open>set(key, value)\<close> the
  resident keys are those of \<open>c\<close> without that head, plus \<open>key\<close>.
\<close>

theorem C5_set_evicts_lru:
  fixes ops :: "'v cache_op list"
  assumes n: "0 < n"
    and c: "c = run_ops (fresh_cache n d) ops"
    and full: "max_items c \<le> length (cache c)"
    and new: "key \<notin> resident c"
  shows "access_order c \<noteq> [] \<and>
         hd (access_order c) \<in> resident c \<and>
         (\<forall>k\<in>resident c. k \<noteq> hd (access_order c) \<longrightarrow>
            last_use (hd (access_order c)) ops < last_use k ops) \<and>
         resident (snd (cache_set c key val ttl now)) =
           insert key (resident c - {hd (access_order c)})"
proof -
  have m: "max_items c = n" by (simp add: c max_items_run_ops fresh_cache_def init_cache_def)
  have i: "cache_inv c"
    unfolding c using n by (intro inv_run_ops inv_fresh) (simp add: fresh_cache_def init_cache_def)
  have "length (access_order c) = length (cache c)" using i by (rule inv_length)
  with full n m have ne: "access_order c \<noteq> []" by auto
  then obtain x xs where ao: "access_order c = x # xs" by (cases "access_order c") auto
  have r: "resident c = insert x (set xs)" using i ao by (auto simp: cache_inv_def)
  have "sorted_wrt (\<lambda>a b. last_use a ops < last_use b ops) (access_order c)"
    unfolding c using lru_sorted [OF n] by blast
  then have old: "\<forall>k\<in>set xs. last_use x ops < last_use k ops" by (simp add: ao)
  have "map_of (cache c) key = None" using new by (simp add: map_of_None_iff resident_def)
  then have "resident (snd (cache_set c key val ttl now)) = insert key (resident c - {x})"
    using full by (simp add: resident_set resident_evict ao)
  with ne r old show ?thesis by (auto simp: ao)
qed

text \<open>
  The scenario of the specification: capacity 2, set A, set B, a successful get of A,
  then set C. B is the head of the recency sequence, and A and C remain.
\<close>

theorem C5_set_evicts_lru_witness:
  "fst (cache_get (run_ops (fresh_cache 2 60)
            [OpSet ''A'' (Some (1::nat)) None 0, OpSet ''B'' (Some 2) None 1]) ''A'' None 2)
     = (True, Some 1) \<and>
   hd (access_order (run_ops (fresh_cache 2 60) set_A_set_B_get_A)) = ''B'' \<and>
   resident (run_ops (fresh_cache 2 60) set_A_set_B_get_A) = {''A'', ''B''} \<and>
   last_use ''B'' set_A_set_B_get_A < last_use ''A'' set_A_set_B_get_A \<and>
   resident (snd (cache_set (run_ops (fresh_cache 2 60) set_A_set_B_get_A)
                     ''C'' (Some 3) None 3)) = {''A'', ''C''}"
proof -
  have h: "max_items (run_ops (fresh_cache 2 60) set_A_set_B_get_A)
             \<le> length (cache (run_ops (fresh_cache 2 60) set_A_set_B_get_A))"
    "''C'' \<notin> resident (run_ops (fresh_cache 2 60) set_A_set_B_get_A)"
    by (simp_all add: set_A_set_B_get_A_state resident_def)
  have g: "fst (cache_get (run_ops (fresh_cache 2 60)
            [OpSet ''A'' (Some (1::nat)) None 0, OpSet ''B'' (Some 2) None 1]) ''A'' None 2)
             = (True, Some 1)"
    by (simp add: run_ops_def cache_set_def cache_get_def fresh_cache_def init_cache_def
      evict_lru_def update_access_order_def Let_def deque_append_def py_or_def)
  have l: "last_use ''B'' set_A_set_B_get_A < last_use ''A'' set_A_set_B_get_A"
    by (simp add: last_use_def set_A_set_B_get_A_def)
  from C5_set_evicts_lru [of 2 "run_ops (fresh_cache 2 60) set_A_set_B_get_A" 60
      set_A_set_B_get_A "''C''" "Some 3" None 3, OF _ refl h]
  show ?thesis using g l by (auto simp: set_A_set_B_get_A_state resident_def)
qed

text \<open>
  With capacity 0 the claim fails as stated. After \<open>set(A)\<close> on a fresh cache of
  capacity 0 the entry map holds A and the recency sequence is empty (a deque of
  maximal length 0 keeps nothing), so the cache is at capacity by the guard of \<open>set\<close>;
  \<open>set(B)\<close> then finds nothing to evict, and A, the only resident key, stays.
\<close>

theorem C5_set_evicts_lru_counterexample:
  "max_items zero_capacity_A \<le> length (cache zero_capacity_A) \<and>
   ''B'' \<notin> resident zero_capacity_A \<and>
   resident zero_capacity_A = {''A''} \<and>
   resident (snd (cache_set zero_capacity_A ''B'' (Some 2) None 1)) = {''A'', ''B''}"
  by (simp add: zero_capacity_A_eq cache_set_def resident_def
      evict_lru_def update_access_order_def Let_def deque_append_def py_or_def insert_commute)

subsection \<open>The invariant over every sequence of calls\<close>

text \<open>
  Claim C6, as amended. For a cache of capacity at least 1 and every list of get, set and
  clear calls applied to a fresh cache (hence after each call, every prefix being such a
  list): the number of entries does not exceed the capacity, the keys of the recency
  sequence are exactly the keys of the entry map, and the recency sequence has no
  duplicates.
\<close>

theorem C6_cache_invariant:
  assumes "0 < n"
  shows "length (cache (run_ops (fresh_cache n d) ops)) \<le> n \<and>
         set (access_order (run_ops (fresh_cache n d) ops)) =
           fst ` set (cache (run_ops (fresh_cache n d) ops)) \<and>
         distinct (access_order (run_ops (fresh_cache n d) ops))"
proof -
  have m: "max_items (fresh_cache n d) = n" by (simp add: fresh_cache_def init_cache_def)
  have "cache_inv (run_ops (fresh_cache n d) ops)"
    using assms by (intro inv_run_ops inv_fresh) (simp add: m)
  then show ?thesis
    by (simp add: cache_inv_def resident_def max_items_run_ops m)
qed

theorem C6_cache_invariant_witness:
  "(0::nat) < 2 \<and>
   length (cache (run_ops (fresh_cache 2 60) set_A_set_B_get_A)) \<le> 2 \<and>
   set (access_order (run_ops (fresh_cache 2 60) set_A_set_B_get_A)) =
     fst ` set (cache (run_ops (fresh_cache 2 60) set_A_set_B_get_A)) \<and>
   distinct (access_order (run_ops (fresh_cache 2 60) set_A_set_B_get_A))"
  using C6_cache_invariant [of 2 60 set_A_set_B_get_A] by simp

text \<open>
  With capacity 0 the invariant fails after the first \<open>set\<close>: one entry is resident,
  more than the capacity, and the recency sequence is empty.
\<close>

theorem C6_cache_invariant_counterexample:
  "\<not> (length (cache (run_ops (fresh_cache 0 60) [OpSet ''A'' (Some (1::nat)) None 0])) \<le> 0 \<and>
      set (access_order (run_ops (fresh_cache 0 60) [OpSet ''A'' (Some (1::nat)) None 0])) =
        fst ` set (cache (run_ops (fresh_cache 0 60) [OpSet ''A'' (Some (1::nat)) None 0])) \<and>
      distinct (access_order (run_ops (fresh_cache 0 60) [OpSet ''A'' (Some (1::nat)) None 0])))"
  by (simp add: run_ops_def cache_set_def fresh_cache_def init_cache_def
      evict_lru_def update_access_order_def Let_def deque_append_def py_or_def)

section \<open>Properties of the retrier\<close>

subsection \<open>The delay and its overflow\<close>

lemma float_limit_above: "(2::int) ^ 1023 < float_limit"
proof -
  have a: "(2::int) ^ 970 < 2 ^ 1023" by (rule power_strict_increasing) simp_all
  have "(2::int) ^ 1024 = 2 ^ (1023 + 1)" by (simp only: numeral_plus_one semiring_norm)
  then have b: "(2::int) ^ 1024 = 2 * 2 ^ 1023" by (simp only: power_add power_one_right mult.commute)
  show ?thesis unfolding float_limit_def using a b by linarith
qed

lemma float_limit_below: "float_limit \<le> (2::int) ^ 1024"
proof -
  have "(0::int) \<le> 2 ^ 970" by (rule zero_le_power) simp
  then show ?thesis unfolding float_limit_def by linarith
qed

lemma int_to_float_small:
  assumes "n \<le> 1023"
  shows "int_to_float (2 ^ n) = Inr (2 ^ n)"
proof -
  have "(2::int) ^ n \<le> 2 ^ 1023" using assms by (intro power_increasing) simp_all
  then have "\<not> float_limit \<le> \<bar>(2::int) ^ n\<bar>" using float_limit_above by simp
  then show ?thesis unfolding int_to_float_def by simp
qed

lemma int_to_float_large:
  assumes "1024 \<le> n"
  shows "int_to_float (2 ^ n) = Inl (Exn OverflowError ''int too large to convert to float'')"
proof -
  have "(2::int) ^ 1024 \<le> 2 ^ n" using assms by (intro power_increasing) simp_all
  then have "float_limit \<le> \<bar>(2::int) ^ n\<bar>" using float_limit_below by simp
  then show ?thesis unfolding int_to_float_def by simp
qed

lemma backoff_cap_ok:
  assumes "1 \<le> k" "k \<le> 1024"
  shows "backoff_cap cfg (int k) = Inr (min (base_delay cfg * 2 ^ (k - 1)) 60)"
proof -
  have n: "nat (int k - 1) = k - 1" by simp
  have z: "0 \<le> int k - 1" using assms(1) by linarith
  have s: "int_to_float (2 ^ (k - 1)) = Inr (2 ^ (k - 1))"
    using assms(2) by (intro int_to_float_small) simp
  show ?thesis unfolding backoff_cap_def n using z s by simp
qed

lemma backoff_cap_overflow:
  assumes "1025 \<le> k"
  shows "backoff_cap cfg (int k) = Inl (Exn OverflowError ''int too large to convert to float'')"
proof -
  have n: "nat (int k - 1) = k - 1" by simp
  have z: "0 \<le> int k - 1" using assms by linarith
  have s: "int_to_float (2 ^ (k - 1)) = Inl (Exn OverflowError ''int too large to convert to float'')"
    using assms by (intro int_to_float_large) simp
  show ?thesis unfolding backoff_cap_def n using z s by simp
qed

lemma backoff_delay_ok:
  assumes "1 \<le> k" "k \<le> 1024"
  shows "backoff_delay cfg (int k) u =
           Inr (min (base_delay cfg * 2 ^ (k - 1)) 60 +
                (if use_jitter cfg then u * (0.5 * min (base_delay cfg * 2 ^ (k - 1)) 60) else 0))"
  unfolding backoff_delay_def backoff_cap_ok [OF assms] uniform_def by simp

lemma backoff_delay_overflow:
  assumes "1025 \<le> k"
  shows "backoff_delay cfg (int k) u = Inl (Exn OverflowError ''int too large to convert to float'')"
  unfolding backoff_delay_def backoff_cap_overflow [OF assms] by simp


subsection \<open>The loop, case by case\<close>

declare run_loop.simps [simp del]

lemma run_loop_exit:
  "\<not> retry_count \<le> max_retries cfg \<Longrightarrow>
   run_loop cfg f name rnd retry_count prev invs dels w =
     \<lparr>outcome = Inl (raise_last prev name), invocations = invs, delays = dels, world_after = w\<rparr>"
  by (subst run_loop.simps) simp

lemma run_loop_return:
  "retry_count \<le> max_retries cfg \<Longrightarrow> fst (f w) = Inr r \<Longrightarrow>
   run_loop cfg f name rnd retry_count prev invs dels w =
     \<lparr>outcome = Inr r, invocations = invs @ [Inr r], delays = dels, world_after = snd (f w)\<rparr>"
  by (subst run_loop.simps) simp

lemma run_loop_exhausted:
  "retry_count \<le> max_retries cfg \<Longrightarrow> fst (f w) = Inl e \<Longrightarrow> isinstance e (retry_on cfg) \<Longrightarrow>
   retry_count + 1 > max_retries cfg \<Longrightarrow>
   run_loop cfg f name rnd retry_count prev invs dels w =
     \<lparr>outcome = Inl e, invocations = invs @ [Inl e], delays = dels,
      world_after = log_to ''errors'' ERROR (FailedAfterAttempts name (retry_count + 1) e) (snd (f w))\<rparr>"
  by (subst run_loop.simps) (simp add: raise_last_def)

lemma run_loop_overflow:
  "retry_count \<le> max_retries cfg \<Longrightarrow> fst (f w) = Inl e \<Longrightarrow> isinstance e (retry_on cfg) \<Longrightarrow>
   \<not> retry_count + 1 > max_retries cfg \<Longrightarrow>
   backoff_delay cfg (retry_count + 1) (rnd (retry_count + 1)) = Inl overflow \<Longrightarrow>
   run_loop cfg f name rnd retry_count prev invs dels w =
     \<lparr>outcome = Inl overflow, invocations = invs @ [Inl e], delays = dels, world_after = snd (f w)\<rparr>"
  by (subst run_loop.simps) simp

lemma run_loop_retry:
  "retry_count \<le> max_retries cfg \<Longrightarrow> fst (f w) = Inl e \<Longrightarrow> isinstance e (retry_on cfg) \<Longrightarrow>
   \<not> retry_count + 1 > max_retries cfg \<Longrightarrow>
   backoff_delay cfg (retry_count + 1) (rnd (retry_count + 1)) = Inr d \<Longrightarrow>
   run_loop cfg f name rnd retry_count prev invs dels w =
     run_loop cfg f name rnd (retry_count + 1) (Some e) (invs @ [Inl e]) (dels @ [d])
       (asyncio_sleep d
          (log_to ''main'' WARNING
             (AttemptFailedRetrying name (retry_count + 1) (max_retries cfg) e d) (snd (f w))))"
  by (subst run_loop.simps) simp

lemma run_loop_fatal:
  "retry_count \<le> max_retries cfg \<Longrightarrow> fst (f w) = Inl e \<Longrightarrow> \<not> isinstance e (retry_on cfg) \<Longrightarrow>
   run_loop cfg f name rnd retry_count prev invs dels w =
     \<lparr>outcome = Inl e, invocations = invs @ [Inl e], delays = dels,
      world_after = (if isinstance e [Exception]
                     then log_to ''errors'' ERROR (NonRetryableError name e) (snd (f w))
                     else snd (f w))\<rparr>"
  by (subst run_loop.simps) simp

subsection \<open>Properties of the whole loop\<close>

text \<open>
  Whatever the loop does, a property \<open>g\<close> of the world that the operation, the log and
  the sleeps leave unchanged is unchanged at the end; and the delays on record are the
  computed ones, in order, at most \<open>max_retries\<close> of them.
\<close>

lemma run_loop_cases [consumes 0, case_names exit return fatal exhausted overflow retry]:
  assumes "\<not> retry_count \<le> max_retries cfg \<Longrightarrow> P"
    and "\<And>r. retry_count \<le> max_retries cfg \<Longrightarrow> fst (f w) = Inr r \<Longrightarrow> P"
    and "\<And>e. retry_count \<le> max_retries cfg \<Longrightarrow> fst (f w) = Inl e \<Longrightarrow>
           \<not> isinstance e (retry_on cfg) \<Longrightarrow> P"
    and "\<And>e. retry_count \<le> max_retries cfg \<Longrightarrow> fst (f w) = Inl e \<Longrightarrow>
           isinstance e (retry_on cfg) \<Longrightarrow> retry_count + 1 > max_retries cfg \<Longrightarrow> P"
    and "\<And>e ov. retry_count \<le> max_retries cfg \<Longrightarrow> fst (f w) = Inl e \<Longrightarrow>
           isinstance e (retry_on cfg) \<Longrightarrow> \<not> retry_count + 1 > max_retries cfg \<Longrightarrow>
           backoff_delay cfg (retry_count + 1) (rnd (retry_count + 1)) = Inl ov \<Longrightarrow> P"
    and "\<And>e d. retry_count \<le> max_retries cfg \<Longrightarrow> fst (f w) = Inl e \<Longrightarrow>
           isinstance e (retry_on cfg) \<Longrightarrow> \<not> retry_count + 1 > max_retries cfg \<Longrightarrow>
           backoff_delay cfg (retry_count + 1) (rnd (retry_count + 1)) = Inr d \<Longrightarrow> P"
  shows P
proof (cases "retry_count \<le> max_retries cfg")
  case False
  then show ?thesis by (rule assms(1))
next
  case le: True
  show ?thesis
  proof (cases "fst (f w)")
    case (Inr r)
    with le show ?thesis by (rule assms(2))
  next
    case (Inl e)
    show ?thesis
    proof (cases "isinstance e (retry_on cfg)")
      case False
      with le Inl show ?thesis by (rule assms(3))
    next
      case r: True
      show ?thesis
      proof (cases "retry_count + 1 > max_retries cfg")
        case True
        with le Inl r show ?thesis by (rule assms(4))
      next
        case False
        show ?thesis
        proof (cases "backoff_delay cfg (retry_count + 1) (rnd (retry_count + 1))")
          case (Inl ov)
          with le \<open>fst (f w) = Inl e\<close> r False show ?thesis by (rule assms(5))
        next
          case (Inr d)
          with le Inl r False show ?thesis by (rule assms(6))
        qed
      qed
    qed
  qed
qed

lemma run_loop_frame:
  "\<forall>w. g (snd (f w)) = g w \<Longrightarrow> \<forall>l v msg w. g (log_to l v msg w) = g w \<Longrightarrow>
   \<forall>d w. g (asyncio_sleep d w) = g w \<Longrightarrow>
   g (world_after (run_loop cfg f name rnd retry_count prev invs dels w)) = g w"
proof (induction cfg f name rnd retry_count prev invs dels w rule: run_loop.induct)
  case (1 cfg f name rnd retry_count prev invs dels w)
  note op = "1.prems"(1) and lg = "1.prems"(2) and sl = "1.prems"(3)
  show ?case
  proof (cases rule: run_loop_cases [where retry_count = retry_count and cfg = cfg and f = f and w = w and rnd = rnd])
    case exit
    then show ?thesis by (simp add: run_loop_exit)
  next
    case (return r)
    then show ?thesis using op by (simp add: run_loop_return)
  next
    case (fatal e)
    then show ?thesis using op lg by (simp add: run_loop_fatal)
  next
    case (exhausted e)
    then show ?thesis using op lg by (simp add: run_loop_exhausted)
  next
    case (overflow e ov)
    then show ?thesis using op
      by (simp add: run_loop_overflow [where f = f and w = w and rnd = rnd])
  next
    case (retry e d)
    show ?thesis
      using "1.IH" [OF retry op lg sl] op lg sl
      by (simp add: run_loop_retry [where f = f and w = w and rnd = rnd, OF retry])
  qed
qed



text \<open>An operation that always fails with a retryable exception, without overflow.\<close>

lemma run_loop_all_fail:
  "0 \<le> retry_count \<Longrightarrow> retry_count \<le> max_retries cfg \<Longrightarrow> max_retries cfg \<le> 1024 \<Longrightarrow>
   \<forall>w. \<exists>e. fst (f w) = Inl e \<and> isinstance e (retry_on cfg) \<Longrightarrow>
   \<exists>new. invocations (run_loop cfg f name rnd retry_count prev invs dels w) = invs @ new \<and>
     length new = nat (max_retries cfg - retry_count) + 1 \<and>
     (\<forall>x\<in>set new. \<exists>e. x = Inl e \<and> isinstance e (retry_on cfg)) \<and>
     outcome (run_loop cfg f name rnd retry_count prev invs dels w) = last new"
proof (induction cfg f name rnd retry_count prev invs dels w rule: run_loop.induct)
  case (1 cfg f name rnd retry_count prev invs dels w)
  from 1(5) obtain e where e: "fst (f w) = Inl e" "isinstance e (retry_on cfg)" by blast
  show ?case
  proof (cases "retry_count + 1 > max_retries cfg")
    case True
    then have "max_retries cfg - retry_count = 0" using 1(3) by simp
    then show ?thesis using True e 1(3) by (simp add: run_loop_exhausted)
  next
    case False
    have a: "0 \<le> retry_count + 1" using 1(2) by simp
    have b: "retry_count + 1 \<le> max_retries cfg" using False by simp
    have n: "nat (max_retries cfg - retry_count) = Suc (nat (max_retries cfg - (retry_count + 1)))"
      using b by simp
    have k: "retry_count + 1 = int (nat (retry_count + 1))" using a by simp
    have k1: "1 \<le> nat (retry_count + 1)" "nat (retry_count + 1) \<le> 1024"
      using a b 1(2) 1(4) by simp_all
    obtain d where d: "backoff_delay cfg (retry_count + 1) (rnd (retry_count + 1)) = Inr d"
      using backoff_delay_ok [OF k1, of cfg "rnd (retry_count + 1)"] k by metis
    from "1.IH" [OF 1(3) e False d a b 1(4) 1(5)]
    obtain new where new:
      "invocations (run_loop cfg f name rnd retry_count prev invs dels w) = (invs @ [Inl e]) @ new"
      "length new = nat (max_retries cfg - (retry_count + 1)) + 1"
      "\<forall>x\<in>set new. \<exists>e. x = Inl e \<and> isinstance e (retry_on cfg)"
      "outcome (run_loop cfg f name rnd retry_count prev invs dels w) = last new"
      unfolding run_loop_retry [where f = f and w = w and rnd = rnd, OF 1(3) e False d] by blast
    have ne: "new \<noteq> []" using new(2) by auto
    show ?thesis
      by (rule exI [of _ "Inl e # new"]) (use new e ne n in simp)
  qed
qed

text \<open>
  With more than 1024 retries allowed, the same operation is invoked 1025 times, and
  the delay of the 1025th retry overflows.
\<close>

lemma run_loop_all_fail_overflow:
  "0 \<le> retry_count \<Longrightarrow> retry_count \<le> 1024 \<Longrightarrow> 1025 \<le> max_retries cfg \<Longrightarrow>
   \<forall>w. \<exists>e. fst (f w) = Inl e \<and> isinstance e (retry_on cfg) \<Longrightarrow>
   length (invocations (run_loop cfg f name rnd retry_count prev invs dels w)) =
     length invs + nat (1025 - retry_count) \<and>
   outcome (run_loop cfg f name rnd retry_count prev invs dels w) =
     Inl (Exn OverflowError ''int too large to convert to float'')"
proof (induction cfg f name rnd retry_count prev invs dels w rule: run_loop.induct)
  case (1 cfg f name rnd retry_count prev invs dels w)
  from 1(5) obtain e where e: "fst (f w) = Inl e" "isinstance e (retry_on cfg)" by blast
  have le: "retry_count \<le> max_retries cfg" using 1(3,4) by simp
  have nx: "\<not> retry_count + 1 > max_retries cfg" using 1(3,4) by simp
  have a: "0 \<le> retry_count + 1" using 1(2) by simp
  have k: "retry_count + 1 = int (nat (retry_count + 1))" using a by simp
  show ?case
  proof (cases "retry_count = 1024")
    case True
    have "1025 \<le> nat (retry_count + 1)" using True by simp
    from backoff_delay_overflow [OF this, of cfg "rnd (retry_count + 1)"]
    have ov: "backoff_delay cfg (retry_count + 1) (rnd (retry_count + 1)) =
                Inl (Exn OverflowError ''int too large to convert to float'')"
      using k by metis
    show ?thesis
      unfolding run_loop_overflow [where f = f and w = w and rnd = rnd, OF le e nx ov]
      using True by simp
  next
    case False
    have b: "retry_count + 1 \<le> 1024" using False 1(3) by simp
    have k1: "1 \<le> nat (retry_count + 1)" "nat (retry_count + 1) \<le> 1024"
      using a b 1(2) by simp_all
    obtain d where d: "backoff_delay cfg (retry_count + 1) (rnd (retry_count + 1)) = Inr d"
      using backoff_delay_ok [OF k1, of cfg "rnd (retry_count + 1)"] k by metis
    have n: "nat (1025 - retry_count) = Suc (nat (1025 - (retry_count + 1)))" using b by simp
    show ?thesis
      using "1.IH" [OF le e nx d a b 1(4) 1(5)]
      by (simp add: run_loop_retry [where f = f and w = w and rnd = rnd, OF le e nx d] n)
  qed
qed

subsection \<open>Exhaustion, fast failure and the backoff schedule\<close>



lemma run_unfold:
  "run cfg f func_name operation_name rnd w =
     run_loop cfg f
       (case operation_name of
          Some n \<Rightarrow> if n \<noteq> [] then n
                    else (case func_name of Some f \<Rightarrow> f | None \<Rightarrow> ''unknown_operation'')
        | None \<Rightarrow> (case func_name of Some f \<Rightarrow> f | None \<Rightarrow> ''unknown_operation''))
       rnd 0 None [] [] w"
  by (simp add: run_def)

lemma default_delays:
  "backoff_delay (RetryableOperation n classes) 1 (1 / 2) = Inr (5 / 4)"
  "backoff_delay (RetryableOperation n classes) 2 (1 / 2) = Inr (5 / 2)"
  "backoff_delay (RetryableOperation n classes) 3 (1 / 2) = Inr 5"
  using backoff_delay_ok [of 1 "RetryableOperation n classes" "1 / 2"]
    backoff_delay_ok [of 2 "RetryableOperation n classes" "1 / 2"]
    backoff_delay_ok [of 3 "RetryableOperation n classes" "1 / 2"]
  by (simp_all add: RetryableOperation_def)

lemma always_down_facts:
  "fst (always_down w) = Inl (Exn ConnectionError ''down'')"
  "snd (always_down w) = w"
  "isinstance (Exn ConnectionError ''down'') [ConnectionError, TimeoutError]"
  "retry_on (RetryableOperation n [ConnectionError, TimeoutError]) = [ConnectionError, TimeoutError]"
  "max_retries (RetryableOperation n classes) = n"
  by (simp_all add: always_down_def isinstance_def RetryableOperation_def)

lemma always_down_run:
  "run (RetryableOperation 3 [ConnectionError, TimeoutError]) always_down None (Some ''op'')
       (\<lambda>k. 1 / 2) empty_world =
   \<lparr>outcome = Inl (Exn ConnectionError ''down''),
    invocations = [Inl (Exn ConnectionError ''down''), Inl (Exn ConnectionError ''down''),
                   Inl (Exn ConnectionError ''down''), Inl (Exn ConnectionError ''down'')],
    delays = [5 / 4, 5 / 2, 5],
    world_after =
      \<lparr>clock = 35 / 4, slept = [5 / 4, 5 / 2, 5],
       logs = [(''main'', WARNING,
                  AttemptFailedRetrying ''op'' 1 3 (Exn ConnectionError ''down'') (5 / 4)),
               (''main'', WARNING,
                  AttemptFailedRetrying ''op'' 2 3 (Exn ConnectionError ''down'') (5 / 2)),
               (''main'', WARNING,
                  AttemptFailedRetrying ''op'' 3 3 (Exn ConnectionError ''down'') 5),
               (''errors'', ERROR,
                  FailedAfterAttempts ''op'' 4 (Exn ConnectionError ''down''))]\<rparr>\<rparr>"
  unfolding run_unfold
  by (simp add: run_loop_retry [where e = "Exn ConnectionError ''down''" and d = "5 / 4"]
      run_loop_retry [where e = "Exn ConnectionError ''down''" and d = "5 / 2"]
      run_loop_retry [where e = "Exn ConnectionError ''down''" and d = 5]
      run_loop_exhausted [where e = "Exn ConnectionError ''down''"]
      always_down_facts default_delays asyncio_sleep_def log_to_def empty_world_def)

text \<open>
  Claim C1, as amended. For every configuration with \<open>max_retries = N\<close>,
  \<open>0 \<le> N \<le> 1024\<close>, and every operation that raises, on every invocation, an
  exception of the retryable set, \<open>run\<close> invokes the operation exactly \<open>N + 1\<close> times,
  every invocation raises a retryable exception, and \<open>run\<close> raises the exception of
  the last invocation.
\<close>

theorem C1_retry_exhaustion:
  assumes "0 \<le> max_retries cfg" and "max_retries cfg \<le> 1024"
    and "\<forall>w. \<exists>e. fst (operation_func w) = Inl e \<and> isinstance e (retry_on cfg)"
  shows "length (invocations (run cfg operation_func func_name operation_name rnd w)) =
           nat (max_retries cfg) + 1 \<and>
         (\<forall>x\<in>set (invocations (run cfg operation_func func_name operation_name rnd w)).
            \<exists>e. x = Inl e \<and> isinstance e (retry_on cfg)) \<and>
         (\<exists>e. outcome (run cfg operation_func func_name operation_name rnd w) = Inl e) \<and>
         outcome (run cfg operation_func func_name operation_name rnd w) =
           last (invocations (run cfg operation_func func_name operation_name rnd w))"
proof -
  define name where "name = (case operation_name of
                    Some n \<Rightarrow> if n \<noteq> [] then n
                              else (case func_name of Some f \<Rightarrow> f | None \<Rightarrow> ''unknown_operation'')
                  | None \<Rightarrow> (case func_name of Some f \<Rightarrow> f | None \<Rightarrow> ''unknown_operation''))"
  have r: "run cfg operation_func func_name operation_name rnd w =
           run_loop cfg operation_func name rnd 0 None [] [] w"
    by (simp add: run_def name_def)
  from run_loop_all_fail [where retry_count = 0 and name = name and rnd = rnd and prev = None
      and invs = "[]" and dels = "[]" and w = w, OF _ _ assms(2) assms(3)] assms(1)
  obtain new where new:
    "invocations (run_loop cfg operation_func name rnd 0 None [] [] w) = new"
    "length new = nat (max_retries cfg) + 1"
    "\<forall>x\<in>set new. \<exists>e. x = Inl e \<and> isinstance e (retry_on cfg)"
    "outcome (run_loop cfg operation_func name rnd 0 None [] [] w) = last new"
    by auto
  have "new \<noteq> []" using new(2) by auto
  then have "last new \<in> set new" by simp
  with new(3) have "\<exists>e. last new = Inl e" by blast
  with new show ?thesis unfolding r by simp
qed

text \<open>Three retries: four invocations, and the connection error comes back.\<close>

theorem C1_retry_exhaustion_witness:
  "length (invocations (run (RetryableOperation 3 [ConnectionError, TimeoutError]) always_down
      None (Some ''op'') (\<lambda>k. 1 / 2) empty_world)) = 4 \<and>
   outcome (run (RetryableOperation 3 [ConnectionError, TimeoutError]) always_down
      None (Some ''op'') (\<lambda>k. 1 / 2) empty_world) = Inl (Exn ConnectionError ''down'')"
proof -
  have a: "0 \<le> max_retries (RetryableOperation 3 [ConnectionError, TimeoutError])"
    "max_retries (RetryableOperation 3 [ConnectionError, TimeoutError]) \<le> 1024"
    by (simp_all add: RetryableOperation_def)
  have b: "\<forall>w. \<exists>e. fst (always_down w) = Inl e \<and>
             isinstance e (retry_on (RetryableOperation 3 [ConnectionError, TimeoutError]))"
    by (simp add: always_down_def RetryableOperation_def isinstance_def)
  from C1_retry_exhaustion [OF a b, of None "Some ''op''" "\<lambda>k. 1 / 2" empty_world]
  show ?thesis unfolding always_down_run by (simp add: RetryableOperation_def)
qed

text \<open>
  The claim fails as stated at both ends. With \<open>max_retries = -1\<close> the loop body never
  runs: the operation is not invoked, and what is raised is the \<^verbatim>\<open>RuntimeError\<close> of the
  last line of \<open>run\<close>, which the operation never raised. With \<open>max_retries = 1030\<close> and
  the default \<open>base_delay = 1.0\<close> the operation is invoked 1025 times, not 1031: the
  delay of the 1025th retry is \<^verbatim>\<open>1.0 * 2 ** 1024\<close>, whose \<^verbatim>\<open>OverflowError\<close> leaves
  \<open>run\<close>.
\<close>

theorem C1_retry_exhaustion_counterexample:
  "invocations (run (RetryableOperation (- 1) [ConnectionError, TimeoutError]) always_down
      None (Some ''op'') (\<lambda>k. 1 / 2) empty_world) = [] \<and>
   outcome (run (RetryableOperation (- 1) [ConnectionError, TimeoutError]) always_down
      None (Some ''op'') (\<lambda>k. 1 / 2) empty_world) =
     Inl (Exn RuntimeError (''Operation '' @ [CHR 0x27] @ ''op'' @ [CHR 0x27] @
                            '' failed for unknown reasons'')) \<and>
   length (invocations (run (RetryableOperation 1030 [ConnectionError, TimeoutError]) always_down
      None (Some ''op'') (\<lambda>k. 1 / 2) empty_world)) = 1025 \<and>
   outcome (run (RetryableOperation 1030 [ConnectionError, TimeoutError]) always_down
      None (Some ''op'') (\<lambda>k. 1 / 2) empty_world) =
     Inl (Exn OverflowError ''int too large to convert to float'')"
proof -
  have a: "\<forall>w. \<exists>e. fst (always_down w) = Inl e \<and>
             isinstance e (retry_on (RetryableOperation 1030 [ConnectionError, TimeoutError]))"
    by (simp add: always_down_facts)
  have b: "(1025::int) \<le> max_retries (RetryableOperation 1030 [ConnectionError, TimeoutError])"
    by (simp add: always_down_facts)
  have big: "length (invocations (run_loop (RetryableOperation 1030 [ConnectionError, TimeoutError])
                always_down ''op'' (\<lambda>k. 1 / 2) 0 None [] [] empty_world)) = 0 + nat (1025 - 0) \<and>
             outcome (run_loop (RetryableOperation 1030 [ConnectionError, TimeoutError])
                always_down ''op'' (\<lambda>k. 1 / 2) 0 None [] [] empty_world) =
               Inl (Exn OverflowError ''int too large to convert to float'')"
    using run_loop_all_fail_overflow [where retry_count = 0 and invs = "[]", OF _ _ b a] by simp
  have small: "run (RetryableOperation (- 1) [ConnectionError, TimeoutError]) always_down
      None (Some ''op'') (\<lambda>k. 1 / 2) empty_world =
      \<lparr>outcome = Inl (raise_last None ''op''), invocations = [], delays = [],
       world_after = empty_world\<rparr>"
    unfolding run_unfold by (simp add: run_loop_exit always_down_facts)
  show ?thesis
    unfolding small using big unfolding run_unfold by (simp add: raise_last_def)
qed

text \<open>
  Claim C2, as amended. For every configuration with \<open>max_retries \<ge> 0\<close> and every
  operation whose first invocation raises an exception outside the retryable set, \<open>run\<close>
  invokes the operation exactly once and raises that same exception; it does not sleep
  (no delay of its own, and the list of sleeps of the world is the one the operation
  left).
\<close>

theorem C2_fast_fail:
  assumes "0 \<le> max_retries cfg"
    and "fst (operation_func w) = Inl e" and "\<not> isinstance e (retry_on cfg)"
  shows "invocations (run cfg operation_func func_name operation_name rnd w) = [Inl e] \<and>
         outcome (run cfg operation_func func_name operation_name rnd w) = Inl e \<and>
         delays (run cfg operation_func func_name operation_name rnd w) = [] \<and>
         slept (world_after (run cfg operation_func func_name operation_name rnd w)) =
           slept (snd (operation_func w))"
  using assms by (simp add: run_def run_loop_fatal log_to_def)

theorem C2_fast_fail_witness:
  "invocations (run (RetryableOperation 3 [ConnectionError, TimeoutError]) bad_input
      None (Some ''op'') (\<lambda>k. 1 / 2) empty_world) = [Inl (Exn ValueError ''bad'')] \<and>
   outcome (run (RetryableOperation 3 [ConnectionError, TimeoutError]) bad_input
      None (Some ''op'') (\<lambda>k. 1 / 2) empty_world) = Inl (Exn ValueError ''bad'') \<and>
   slept (world_after (run (RetryableOperation 3 [ConnectionError, TimeoutError]) bad_input
      None (Some ''op'') (\<lambda>k. 1 / 2) empty_world)) = []"
proof -
  have a: "0 \<le> max_retries (RetryableOperation 3 [ConnectionError, TimeoutError])"
    by (simp add: RetryableOperation_def)
  have b: "fst (bad_input empty_world) = Inl (Exn ValueError ''bad'')"
    by (simp add: bad_input_def)
  have c: "\<not> isinstance (Exn ValueError ''bad'')
               (retry_on (RetryableOperation 3 [ConnectionError, TimeoutError]))"
    by (simp add: RetryableOperation_def isinstance_def)
  from C2_fast_fail [where operation_func = bad_input and w = empty_world
      and func_name = None and operation_name = "Some ''op''" and rnd = "\<lambda>k. 1 / 2", OF a b c]
  show ?thesis by (simp add: bad_input_def empty_world_def)
qed

text \<open>
  With \<open>max_retries = -1\<close> the claim fails as stated: the operation is not invoked at
  all, and the value error it would raise is not what \<open>run\<close> raises.
\<close>

theorem C2_fast_fail_counterexample:
  "fst (bad_input empty_world) = Inl (Exn ValueError ''bad'') \<and>
   \<not> isinstance (Exn ValueError ''bad'')
       (retry_on (RetryableOperation (- 1) [ConnectionError, TimeoutError])) \<and>
   invocations (run (RetryableOperation (- 1) [ConnectionError, TimeoutError]) bad_input
      None (Some ''op'') (\<lambda>k. 1 / 2) empty_world) = [] \<and>
   outcome (run (RetryableOperation (- 1) [ConnectionError, TimeoutError]) bad_input
      None (Some ''op'') (\<lambda>k. 1 / 2) empty_world) \<noteq> Inl (Exn ValueError ''bad'')"
  by (simp add: run_def run_loop_exit RetryableOperation_def raise_last_def bad_input_def
      isinstance_def)




section \<open>Properties of the throttler\<close>

lemma min_wait_bounds: "0.5 \<le> min_wait api_name \<and> min_wait api_name \<le> 1.5"
  by (simp add: min_wait_def min_wait_times_def dict_get_def)

lemma min_wait_sheets_write: "min_wait ''sheets_write'' = 1.2"
  by (simp add: min_wait_def min_wait_times_def dict_get_def)

lemma adjusted_wait_lower:
  fixes wait_time u :: real
  assumes "0 \<le> wait_time" "0 \<le> u"
  shows "0.9 * wait_time \<le> max 0.1 (wait_time + uniform (- 0.1) 0.1 u * wait_time)"
proof -
  have "0 \<le> 0.2 * u * wait_time" using assms by (intro mult_nonneg_nonneg) simp_all
  moreover have "uniform (- 0.1) 0.1 u * wait_time = - 0.1 * wait_time + 0.2 * u * wait_time"
    unfolding uniform_def by (simp add: algebra_simps)
  ultimately have "0.9 * wait_time \<le> wait_time + uniform (- 0.1) 0.1 u * wait_time" by linarith
  then show ?thesis by linarith
qed

lemma rate_limit_clock:
  "clock (rate_limit_request api_name u m) =
     (if clock m - dict_get (last_request_time m) api_name 0 < min_wait api_name
      then clock m + max (max 0.1 (min_wait api_name - (clock m - dict_get (last_request_time m) api_name 0) + 0.1
             + uniform (- 0.1) 0.1 u *
               (min_wait api_name - (clock m - dict_get (last_request_time m) api_name 0) + 0.1))) 0
      else clock m)"
  unfolding rate_limit_request_def Let_def asyncio_sleep_def by simp

lemma rate_limit_slept:
  "slept (rate_limit_request api_name u m) =
     (if clock m - dict_get (last_request_time m) api_name 0 < min_wait api_name
      then slept m @ [max 0.1 (min_wait api_name - (clock m - dict_get (last_request_time m) api_name 0) + 0.1
             + uniform (- 0.1) 0.1 u *
               (min_wait api_name - (clock m - dict_get (last_request_time m) api_name 0) + 0.1))]
      else slept m)"
  unfolding rate_limit_request_def Let_def asyncio_sleep_def by simp

lemma rate_limit_record:
  assumes "length (AList.update api_name x (last_request_time m)) \<le> 20"
  shows "last_request_time (rate_limit_request api_name u m) =
           AList.update api_name (clock (rate_limit_request api_name u m)) (last_request_time m)"
proof -
  have l: "\<And>y. length (AList.update api_name y (last_request_time m)) \<le> 20"
    using assms by (simp add: length_alist_update)
  show ?thesis
    unfolding rate_limit_request_def Let_def asyncio_sleep_def using l
    by (simp add: not_less [symmetric])
qed

lemma rate_limit_spacing:
  assumes r: "map_of (last_request_time m) api_name = Some t1" and t: "t1 \<le> clock m"
    and u: "0 \<le> u"
  shows "t1 + 0.9 * min_wait api_name \<le> clock (rate_limit_request api_name u m)"
proof -
  define mw where "mw = min_wait api_name"
  define tsl where "tsl = clock m - t1"
  have g: "dict_get (last_request_time m) api_name 0 = t1" using r by (simp add: dict_get_def)
  have mw0: "0 \<le> mw" using min_wait_bounds [of api_name] unfolding mw_def by linarith
  have tsl0: "0 \<le> tsl" using t unfolding tsl_def by linarith
  show ?thesis
  proof (cases "tsl < mw")
    case True
    define wt where "wt = mw - tsl + 0.1"
    have wt0: "0 \<le> wt" using True unfolding wt_def by linarith
    define adj where "adj = max 0.1 (wt + uniform (- 0.1) 0.1 u * wt)"
    have a: "0.9 * wt \<le> adj" unfolding adj_def using wt0 u by (rule adjusted_wait_lower)
    have c: "clock (rate_limit_request api_name u m) = clock m + max adj 0"
      unfolding rate_limit_clock g adj_def wt_def tsl_def mw_def
      using True unfolding tsl_def mw_def by simp
    have m0: "adj \<le> max adj 0" by (rule max.cobounded1)
    have e: "0.9 * wt = 0.9 * mw - 0.9 * tsl + 9 / 100" unfolding wt_def by (simp add: field_simps)
    have x: "clock m = t1 + tsl" unfolding tsl_def by simp
    have "t1 + 0.9 * mw \<le> t1 + tsl + adj" using a tsl0 e by linarith
    also have "\<dots> \<le> t1 + tsl + max adj 0" using m0 by linarith
    finally have "t1 + 0.9 * mw \<le> clock m + max adj 0" unfolding x .
    then show ?thesis unfolding c mw_def .
  next
    case False
    have c: "clock (rate_limit_request api_name u m) = clock m"
      unfolding rate_limit_clock g using False unfolding tsl_def mw_def by simp
    have "t1 + 0.9 * mw \<le> clock m" using False mw0 unfolding tsl_def by linarith
    then show ?thesis unfolding c mw_def .
  qed
qed

lemma rate_limit_first:
  assumes "map_of (last_request_time m) api_name = None" and "min_wait api_name \<le> clock m"
  shows "slept (rate_limit_request api_name u m) = slept m"
    and "clock (rate_limit_request api_name u m) = clock m"
proof -
  have g: "dict_get (last_request_time m) api_name 0 = 0" using assms(1) by (simp add: dict_get_def)
  have n: "\<not> clock m - 0 < min_wait api_name" using assms(2) by linarith
  show "slept (rate_limit_request api_name u m) = slept m"
    unfolding rate_limit_slept g using n by (simp only: if_False)
  show "clock (rate_limit_request api_name u m) = clock m"
    unfolding rate_limit_clock g using n by (simp only: if_False)
qed

text \<open>
  Claim C9. Let fewer than 20 operation classes be on record (the gateway uses five),
  so that the clean-up of the record does not run. A call for a class without a
  recorded request, at a clock reading not below the class's minimum interval (the
  clock counts seconds since 1970), does not sleep. A call records the clock reading at
  which it returns. If a second call for the same class is made at a reading \<open>t\<close> not
  before the first returned, then for every jitter draw it returns, and records its
  reading, no earlier than 0.9 times the minimum interval after the first returned.
  The minimum interval of \<^verbatim>\<open>sheets_write\<close> is 1.2 seconds.
\<close>

theorem C9_throttle_spacing:
  fixes m :: "'z throttled_scheme"
  assumes small: "length (last_request_time m) < 20" and u2: "0 \<le> u2"
  shows "(map_of (last_request_time m) api_name = None \<and> min_wait api_name \<le> clock m \<longrightarrow>
            slept (rate_limit_request api_name u1 m) = slept m \<and>
            clock (rate_limit_request api_name u1 m) = clock m) \<and>
         map_of (last_request_time (rate_limit_request api_name u1 m)) api_name =
            Some (clock (rate_limit_request api_name u1 m)) \<and>
         (clock (rate_limit_request api_name u1 m) \<le> t \<longrightarrow>
            clock (rate_limit_request api_name u1 m) + 0.9 * min_wait api_name
              \<le> clock (rate_limit_request api_name u2
                          ((rate_limit_request api_name u1 m)\<lparr>clock := t\<rparr>)) \<and>
            map_of (last_request_time (rate_limit_request api_name u2
                          ((rate_limit_request api_name u1 m)\<lparr>clock := t\<rparr>))) api_name =
              Some (clock (rate_limit_request api_name u2
                          ((rate_limit_request api_name u1 m)\<lparr>clock := t\<rparr>)))) \<and>
         min_wait ''sheets_write'' = 1.2"
proof -
  let ?m1 = "rate_limit_request api_name u1 m"
  let ?m1t = "?m1\<lparr>clock := t\<rparr>"
  have l1: "length (AList.update api_name 0 (last_request_time m)) \<le> 20"
    using small by (simp add: length_alist_update)
  have r1: "last_request_time ?m1 = AList.update api_name (clock ?m1) (last_request_time m)"
    using l1 by (rule rate_limit_record)
  have rec1: "map_of (last_request_time ?m1) api_name = Some (clock ?m1)"
    unfolding r1 by (simp add: AList.update_conv')
  have l2: "length (AList.update api_name 0 (last_request_time ?m1t)) \<le> 20"
    using small by (simp add: r1 length_alist_update AList.dom_update)
  have r2: "last_request_time (rate_limit_request api_name u2 ?m1t) =
          AList.update api_name (clock (rate_limit_request api_name u2 ?m1t)) (last_request_time ?m1t)"
    using l2 by (rule rate_limit_record)
  have rec2: "map_of (last_request_time (rate_limit_request api_name u2 ?m1t)) api_name =
          Some (clock (rate_limit_request api_name u2 ?m1t))"
    unfolding r2 by (simp add: AList.update_conv')
  have sp: "clock ?m1 \<le> t \<Longrightarrow>
          clock ?m1 + 0.9 * min_wait api_name \<le> clock (rate_limit_request api_name u2 ?m1t)"
  proof -
    assume le: "clock ?m1 \<le> t"
    have a: "map_of (last_request_time ?m1t) api_name = Some (clock ?m1)" using rec1 by simp
    have b: "clock ?m1 \<le> clock ?m1t" using le by simp
    show ?thesis using a b u2 by (rule rate_limit_spacing)
  qed
  show ?thesis
    using rec1 rec2 sp rate_limit_first [of m api_name u1] min_wait_sheets_write by blast
qed

lemma idle_first_call:
  "rate_limit_request ''sheets_write'' (1 / 2) idle_throttle =
     \<lparr>clock = 1000, slept = [], logs = [], last_request_time = [(''sheets_write'', 1000)]\<rparr>"
  unfolding rate_limit_request_def Let_def
  by (simp add: idle_throttle_def dict_get_def min_wait_sheets_write)

lemma idle_second_call:
  "rate_limit_request ''sheets_write'' 0
     \<lparr>clock = 1000, slept = [], logs = [], last_request_time = [(''sheets_write'', 1000)]\<rparr> =
     \<lparr>clock = 1000 + 117 / 100, slept = [117 / 100], logs = [],
      last_request_time = [(''sheets_write'', 1000 + 117 / 100)]\<rparr>"
  unfolding rate_limit_request_def Let_def
  by (simp add: dict_get_def min_wait_sheets_write uniform_def asyncio_sleep_def)

text \<open>
  Two calls for \<^verbatim>\<open>sheets_write\<close> at clock reading 1000, the second with the lowest
  draw: the first does not sleep, the second sleeps 1.17 seconds, more than 1.08.
\<close>

theorem C9_throttle_spacing_witness:
  "slept (rate_limit_request ''sheets_write'' (1 / 2) idle_throttle) = [] \<and>
   clock (rate_limit_request ''sheets_write'' (1 / 2) idle_throttle) = 1000 \<and>
   1000 + 0.9 * 1.2 \<le> clock (rate_limit_request ''sheets_write'' 0
      ((rate_limit_request ''sheets_write'' (1 / 2) idle_throttle)\<lparr>clock := 1000\<rparr>)) \<and>
   clock (rate_limit_request ''sheets_write'' 0
      ((rate_limit_request ''sheets_write'' (1 / 2) idle_throttle)\<lparr>clock := 1000\<rparr>)) = 1000 + 117 / 100"
proof -
  have a: "length (last_request_time idle_throttle) < 20" by (simp add: idle_throttle_def)
  have b: "(0::real) \<le> 0" by simp
  have c: "map_of (last_request_time idle_throttle) ''sheets_write'' = None \<and>
           min_wait ''sheets_write'' \<le> clock idle_throttle"
    by (simp add: idle_throttle_def min_wait_sheets_write)
  from C9_throttle_spacing [OF a b, of "''sheets_write''" "1 / 2" 1000] c
  show ?thesis unfolding idle_first_call by (simp add: idle_second_call min_wait_sheets_write)
qed

section \<open>Properties of the gateway\<close>

subsection \<open>The degraded inventory\<close>

lemma build_default_stocked:
  "case build_default DEFAULT_INVENTORY (empty_by_tag, empty_by_strain, []) of
     Inl e \<Rightarrow> False | Inr catalog \<Rightarrow> every_category_stocked catalog"
  by code_simp

lemma build_default_eq:
  "build_default DEFAULT_INVENTORY (empty_by_tag, empty_by_strain, []) = Inr default_catalog"
  using build_default_stocked by (simp add: default_catalog_def split: sum.splits)

lemma default_catalog_stocked: "every_category_stocked default_catalog"
  using build_default_stocked by (simp add: build_default_eq)

lemma logs_put_cache: "logs (put_cache t c m) = logs m"
  by (simp add: put_cache_def)

lemma update_cache_fst: "fst (update_cache k data t ttl m) = data"
  by (simp add: update_cache_def cache_set_def Let_def)

lemma update_cache_logs: "logs (snd (update_cache k data t ttl m)) = logs m"
  by (simp add: update_cache_def Let_def logs_put_cache)

lemma use_default_result:
  "fst (use_default_inventory m) = Inr (Some (CachedInventory default_catalog))"
  by (simp add: use_default_inventory_def create_default_inventory_def build_default_eq
      Let_def update_cache_fst)

lemma use_default_logs:
  "logs (snd (use_default_inventory m)) = logs m @ [(''errors'', WARNING, UsingDefaultInventory)]"
  by (simp add: use_default_inventory_def create_default_inventory_def build_default_eq
      Let_def update_cache_logs log_to_def)

lemma more_rate_limit:
  "sheet_client (rate_limit_request a u m) = sheet_client m"
  "sheet (rate_limit_request a u m) = sheet m"
  "inventory_sheet (rate_limit_request a u m) = inventory_sheet m"
  "sheet_initialized (rate_limit_request a u m) = sheet_initialized m"
  "inventory_cache (rate_limit_request a u m) = inventory_cache m"
  "orders_cache (rate_limit_request a u m) = orders_cache m"
  "sheets_cache (rate_limit_request a u m) = sheets_cache m"
  "drive_cache (rate_limit_request a u m) = drive_cache m"
  unfolding rate_limit_request_def Let_def asyncio_sleep_def by simp_all

lemma init_miss:
  "fst (check_cache ''inventory_data'' ''inventory'' None (init_manager now)) = (False, None)"
  by (simp add: check_cache_def get_cache_def init_manager_def fresh_cache_def init_cache_def
      cache_get_def Let_def)

lemma init_miss_state:
  "sheet_client (snd (check_cache ''inventory_data'' ''inventory'' None (init_manager now))) = False"
  "sheet_initialized (snd (check_cache ''inventory_data'' ''inventory'' None (init_manager now))) = False"
  by (simp_all add: check_cache_def put_cache_def init_manager_def Let_def)

lemma offline_initialize:
  assumes "\<not> sheet_initialized m" "\<not> sheet_client m"
  shows "fst (initialize_sheets offline_env m) = Inr (None, None)"
  using assms
  by (simp add: initialize_sheets_def Let_def and_then_def step_client_def more_rate_limit
      offline_env_def online_env_def caught_def isinstance_def)

text \<open>
  Claim C7. Take a call of \<^verbatim>\<open>fetch_inventory\<close> that misses the cache, so that the remote
  fetch is attempted, and let the fetch fail: sheet initialization returns no inventory
  sheet, or it returns and the remote read raises an exception (one that derives from
  \<^verbatim>\<open>Exception\<close>). Then \<^verbatim>\<open>fetch_inventory\<close> does not raise: it returns the built-in
  catalog, in which each of the tags buds, local, carts, edibs and each of the strains
  indica, sativa, hybrid has at least one product, and the warning that the default
  inventory is in use is logged.
\<close>

theorem C7_degraded_fallback:
  assumes miss: "\<not> fst (fst (check_cache ''inventory_data'' ''inventory'' None m))"
    and fail:
      "(\<exists>s. fst (initialize_sheets env (snd (check_cache ''inventory_data'' ''inventory'' None m)))
              = Inr (s, None)) \<or>
       (\<exists>s e. fst (initialize_sheets env (snd (check_cache ''inventory_data'' ''inventory'' None m)))
              = Inr s \<and> get_all_records_result env = Inl e \<and> caught e)"
  shows "fst (fetch_inventory env m) = Inr (Some (CachedInventory default_catalog)) \<and>
         build_default DEFAULT_INVENTORY (empty_by_tag, empty_by_strain, []) = Inr default_catalog \<and>
         every_category_stocked default_catalog \<and>
         (''errors'', WARNING, UsingDefaultInventory) \<in> set (logs (snd (fetch_inventory env m)))"
proof -
  let ?m1 = "snd (check_cache ''inventory_data'' ''inventory'' None m)"
  have t: "(\<exists>m2. fetch_inventory_try env ?m1 = use_default_inventory m2) \<or>
           (\<exists>e. fst (fetch_inventory_try env ?m1) = Inl e \<and> caught e)"
    using fail
    by (auto simp: fetch_inventory_try_def Let_def split: sum.splits)
  have "\<exists>m2. fetch_inventory env m = use_default_inventory m2"
  proof -
    from t show ?thesis
    proof
      assume "\<exists>m2. fetch_inventory_try env ?m1 = use_default_inventory m2"
      then obtain m2 where e: "fetch_inventory_try env ?m1 = use_default_inventory m2" by blast
      have "fetch_inventory env m = use_default_inventory m2"
        using miss by (simp add: fetch_inventory_def Let_def e use_default_result)
      then show ?thesis by blast
    next
      assume "\<exists>e. fst (fetch_inventory_try env ?m1) = Inl e \<and> caught e"
      then obtain e where e: "fst (fetch_inventory_try env ?m1) = Inl e" "caught e" by blast
      have "fetch_inventory env m = use_default_inventory
              (log_to ''errors'' ERROR (ErrorFetchingInventory e) (snd (fetch_inventory_try env ?m1)))"
        using miss e by (simp add: fetch_inventory_def Let_def)
      then show ?thesis by blast
    qed
  qed
  then obtain m2 where "fetch_inventory env m = use_default_inventory m2" by blast
  then show ?thesis
    by (simp add: use_default_result use_default_logs build_default_eq default_catalog_stocked)
qed

text \<open>The credentials file is missing and nothing is cached.\<close>

theorem C7_degraded_fallback_witness:
  "fst (fetch_inventory offline_env (init_manager 1000)) =
     Inr (Some (CachedInventory default_catalog)) \<and>
   every_category_stocked default_catalog \<and>
   (''errors'', WARNING, UsingDefaultInventory)
     \<in> set (logs (snd (fetch_inventory offline_env (init_manager 1000))))"
proof -
  have a: "\<not> fst (fst (check_cache ''inventory_data'' ''inventory'' None (init_manager 1000 :: nat manager)))"
    by (simp add: init_miss)
  have b: "fst (initialize_sheets offline_env
             (snd (check_cache ''inventory_data'' ''inventory'' None (init_manager 1000 :: nat manager))))
           = Inr (None, None)"
    by (rule offline_initialize) (simp_all add: init_miss_state)
  from C7_degraded_fallback [of "init_manager 1000" offline_env] a b
  show ?thesis by blast
qed

section \<open>Orders and the orders cache\<close>

subsection \<open>What a call leaves of the four caches\<close>

lemma run_frame:
  assumes "\<forall>w. g (snd (f w)) = g w"
    and "\<forall>l v msg w. g (log_to l v msg w) = g w"
    and "\<forall>d w. g (asyncio_sleep d w) = g w"
  shows "g (world_after (run cfg f fn nm rnd w)) = g w"
  unfolding run_def Let_def using assms by (rule run_loop_frame)

lemma caches_log_to: "caches_of (log_to l v msg m) = caches_of m"
  by (simp add: caches_of_def log_to_def)

lemma caches_sleep: "caches_of (asyncio_sleep d m) = caches_of m"
  by (simp add: caches_of_def asyncio_sleep_def)

lemma caches_rate_limit: "caches_of (rate_limit_request a u m) = caches_of m"
  by (simp add: caches_of_def more_rate_limit)

lemma caches_set_sheet:
  "caches_of (m\<lparr>sheet := h\<rparr>) = caches_of m"
  "caches_of (m\<lparr>inventory_sheet := h\<rparr>) = caches_of m"
  "caches_of (m\<lparr>sheet_initialized := b\<rparr>) = caches_of m"
  "caches_of (m\<lparr>sheet_client := b\<rparr>) = caches_of m"
  "caches_of (m\<lparr>write_attempts := n\<rparr>) = caches_of m"
  "caches_of (m\<lparr>remote_rows := rs\<rparr>) = caches_of m"
  by (simp_all add: caches_of_def)

lemma caches_step_client: "caches_of (snd (step_client env m)) = caches_of m"
  by (simp add: step_client_def caches_log_to caches_set_sheet split: option.splits)

lemma caches_step_open: "caches_of (snd (step_open env m)) = caches_of m"
  by (simp add: step_open_def caches_log_to split: option.splits)

lemma caches_step_orders: "caches_of (snd (step_orders env m)) = caches_of m"
  by (simp add: step_orders_def caches_log_to caches_set_sheet split: sum.splits)

lemma caches_step_inventory: "caches_of (snd (step_inventory env m)) = caches_of m"
  by (simp add: step_inventory_def Let_def caches_log_to caches_set_sheet
      split: sum.splits option.splits)

lemma caches_step_headers: "caches_of (snd (step_headers env m)) = caches_of m"
  by (simp add: step_headers_def caches_log_to split: sum.splits option.splits)

lemma caches_step_done: "caches_of (snd (step_done m)) = caches_of m"
  by (simp add: step_done_def caches_set_sheet)

lemma caches_and_then:
  assumes "\<And>m. caches_of (snd (f m)) = caches_of m"
  shows "caches_of (snd (and_then r f)) = caches_of (snd r)"
  using assms by (simp add: and_then_def split: step.splits)

lemma caches_initialize_sheets: "caches_of (snd (initialize_sheets env m)) = caches_of m"
proof (cases "sheet_initialized m \<and> sheet m \<noteq> None \<and> inventory_sheet m \<noteq> None")
  case True
  then show ?thesis by (simp add: initialize_sheets_def)
next
  case False
  define r where "r = and_then (and_then (and_then (and_then (and_then
                   (Continue, rate_limit_request ''sheets'' (draw_init env) m)
                   (step_client env)) (step_open env)) (step_orders env))
                   (step_inventory env)) (step_headers env)"
  have "caches_of (snd (and_then r step_done)) = caches_of m"
    unfolding r_def
    by (simp add: caches_and_then caches_step_client caches_step_open caches_step_orders
        caches_step_inventory caches_step_headers caches_step_done caches_rate_limit)
  moreover have "snd (initialize_sheets env m) = snd (and_then r step_done) \<or>
      (\<exists>e. snd (initialize_sheets env m) =
         log_to ''errors'' ERROR (FailedToInitializeSheets e) (snd (and_then r step_done)))"
    unfolding initialize_sheets_def if_not_P [OF False] r_def [symmetric] Let_def
    by (auto split: step.splits)
  ultimately show ?thesis by (auto simp add: caches_log_to)
qed

lemma caches_find_next_row: "caches_of (snd (find_next_row env m)) = caches_of m"
  by (simp add: find_next_row_def caches_log_to split: sum.splits)

lemma caches_add_to_sheet: "caches_of (snd (add_to_sheet env d n m)) = caches_of m"
  by (simp add: add_to_sheet_def caches_of_def split: option.splits)

lemma caches_before_write:
  "caches_of (world_after (run cfg (add_to_sheet env d n) fn nm rnd
       (snd (find_next_row env (rate_limit_request a u (snd (initialize_sheets env m))))))) =
   caches_of m"
proof -
  have "caches_of (world_after (run cfg (add_to_sheet env d n) fn nm rnd
       (snd (find_next_row env (rate_limit_request a u (snd (initialize_sheets env m))))))) =
     caches_of (snd (find_next_row env (rate_limit_request a u (snd (initialize_sheets env m)))))"
    by (rule run_frame) (simp_all add: caches_add_to_sheet caches_log_to caches_sleep)
  then show ?thesis
    by (simp add: caches_find_next_row caches_rate_limit caches_initialize_sheets)
qed

lemma add_order_try_True:
  assumes "fst (add_order_try env order_data m) = Inr True"
  shows "\<exists>m1. caches_of m1 = caches_of m \<and>
           snd (add_order_try env order_data m) =
             m1\<lparr>orders_cache := cache_clear (orders_cache m1) None\<rparr>"
proof (cases "fst (initialize_sheets env m)")
  case (Inl e)
  then show ?thesis using assms by (simp add: add_order_try_def)
next
  case sheets: (Inr sheets)
  show ?thesis
  proof (cases "fst sheets = None")
    case True
    then show ?thesis using assms sheets by (simp add: add_order_try_def)
  next
    case some: False
    define m0 where "m0 = rate_limit_request ''sheets_write'' (draw_call env)
                            (snd (initialize_sheets env m))"
    show ?thesis
    proof (cases "fst (find_next_row env m0)")
      case (Inl e)
      then show ?thesis using assms sheets
        by (simp add: add_order_try_def Let_def m0_def some)
    next
      case row: (Inr next_row)
      define r where "r = run (RetryableOperation 3 [ConnectionError, TimeoutError, BrokenPipeError])
                               (add_to_sheet env (adjust_columns order_data) next_row)
                               (Some ''add_to_sheet'') (Some ''add_order_to_sheet'')
                               (draw_retry env) (snd (find_next_row env m0))"
      have unfold: "add_order_try env order_data m =
          (case outcome r of
             Inl e \<Rightarrow> (Inl e, world_after r)
           | Inr success \<Rightarrow>
               (Inr success,
                if success
                then (world_after r)\<lparr>orders_cache := cache_clear (orders_cache (world_after r)) None\<rparr>
                else world_after r))"
        using sheets row
        by (simp add: add_order_try_def Let_def m0_def [symmetric] r_def [symmetric] some)
      have c: "caches_of (world_after r) = caches_of m"
        unfolding r_def m0_def by (rule caches_before_write)
      show ?thesis
      proof (cases "outcome r")
        case (Inl e)
        then show ?thesis using assms unfolding unfold by simp
      next
        case (Inr success)
        then have "success" using assms unfolding unfold by simp
        then have "snd (add_order_try env order_data m) =
            (world_after r)\<lparr>orders_cache := cache_clear (orders_cache (world_after r)) None\<rparr>"
          using Inr unfolding unfold by simp
        with c show ?thesis by blast
      qed
    qed
  qed
qed

lemma add_order_True:
  assumes "fst (add_order_to_sheet env order_data m) = Inr True"
  shows "fst (add_order_try env order_data m) = Inr True \<and>
         snd (add_order_to_sheet env order_data m) = snd (add_order_try env order_data m)"
  using assms unfolding add_order_to_sheet_def
  by (simp split: sum.splits if_splits)

lemma get_cache_orders:
  "get_cache ''orders'' m = orders_cache m"
  "orders_cache (put_cache ''orders'' c m) = c"
  "clock (put_cache t c m) = clock m"
  by (simp_all add: get_cache_def put_cache_def)

lemma get_order_details_miss:
  assumes "fst (fst (check_cache (''order_'' @ order_id) ''orders'' (Some 30) m)) = False"
  shows "fst (get_order_details env order_id m) =
           (case fst (get_order_try env order_id
                        (snd (check_cache (''order_'' @ order_id) ''orders'' (Some 30) m))) of
              Inr result \<Rightarrow> Inr result
            | Inl e \<Rightarrow> if caught e then Inr None else Inl e)"
  using assms unfolding get_order_details_def Let_def
  by (simp split: sum.splits)

text \<open>
  Claim C8. For every call of \<^verbatim>\<open>add_order_to_sheet\<close> that returns \<^verbatim>\<open>True\<close>: the
  orders cache is empty afterwards (entry map and recency sequence), so that a lookup of
  any key in it misses, at any later time and with any \<^verbatim>\<open>max_age\<close>; a subsequent
  \<^verbatim>\<open>get_order_details\<close> for any order identifier, with the remote service in any state,
  misses the cache and returns what its remote read returns; and the inventory, sheets
  and drive caches are the ones of before the call.
\<close>

theorem C8_add_order_clears_orders_cache:
  assumes "fst (add_order_to_sheet env order_data m) = Inr True"
  shows "orders_cache (snd (add_order_to_sheet env order_data m)) =
           (orders_cache m)\<lparr>cache := [], access_order := []\<rparr> \<and>
         resident (orders_cache (snd (add_order_to_sheet env order_data m))) = {} \<and>
         fst (cache_get (orders_cache (snd (add_order_to_sheet env order_data m))) key max_age now) =
           (False, None) \<and>
         fst (check_cache (''order_'' @ order_id) ''orders'' (Some 30)
                (snd (add_order_to_sheet env order_data m))) = (False, None) \<and>
         fst (get_order_details env2 order_id (snd (add_order_to_sheet env order_data m))) =
           (case fst (get_order_try env2 order_id
                        (snd (check_cache (''order_'' @ order_id) ''orders'' (Some 30)
                                (snd (add_order_to_sheet env order_data m))))) of
              Inr result \<Rightarrow> Inr result
            | Inl e \<Rightarrow> if caught e then Inr None else Inl e) \<and>
         inventory_cache (snd (add_order_to_sheet env order_data m)) = inventory_cache m \<and>
         sheets_cache (snd (add_order_to_sheet env order_data m)) = sheets_cache m \<and>
         drive_cache (snd (add_order_to_sheet env order_data m)) = drive_cache m"
proof -
  define m2 where "m2 = snd (add_order_to_sheet env order_data m)"
  from add_order_True [OF assms]
  have t: "fst (add_order_try env order_data m) = Inr True"
    and s: "m2 = snd (add_order_try env order_data m)" by (simp_all add: m2_def)
  from add_order_try_True [OF t] obtain m1 where
    c: "caches_of m1 = caches_of m"
    and e: "m2 = m1\<lparr>orders_cache := cache_clear (orders_cache m1) None\<rparr>"
    unfolding s by blast
  have o: "orders_cache m2 = (orders_cache m)\<lparr>cache := [], access_order := []\<rparr>"
    using c unfolding e by (simp add: caches_of_def cache_clear_def)
  have others: "inventory_cache m2 = inventory_cache m" "sheets_cache m2 = sheets_cache m"
    "drive_cache m2 = drive_cache m"
    using c unfolding e by (simp_all add: caches_of_def)
  have r: "resident (orders_cache m2) = {}" unfolding o by (simp add: resident_def)
  have g: "\<And>k a t. fst (cache_get (orders_cache m2) k a t) = (False, None)"
    unfolding o by (simp add: cache_get_def)
  have ch: "fst (check_cache (''order_'' @ order_id) ''orders'' (Some 30) m2) = (False, None)"
    unfolding check_cache_def Let_def by (simp add: get_cache_orders g)
  have d: "fst (get_order_details env2 order_id m2) =
           (case fst (get_order_try env2 order_id
                        (snd (check_cache (''order_'' @ order_id) ''orders'' (Some 30) m2))) of
              Inr result \<Rightarrow> Inr result
            | Inl e \<Rightarrow> if caught e then Inr None else Inl e)"
    by (rule get_order_details_miss) (simp only: ch fst_conv)
  show ?thesis
    unfolding m2_def [symmetric] using o r g [of key max_age now] ch d others by blast
qed

text \<open>A service that answers: the sheets open and the write succeeds at once.\<close>

lemma online_initialize: "\<exists>s i. fst (initialize_sheets online_env m) = Inr (Some s, i)"
proof (cases "sheet_initialized m \<and> sheet m \<noteq> None \<and> inventory_sheet m \<noteq> None")
  case True
  then show ?thesis by (auto simp add: initialize_sheets_def)
next
  case False
  show ?thesis
    unfolding initialize_sheets_def if_not_P [OF False]
    by (simp add: Let_def and_then_def step_client_def step_open_def step_orders_def
        step_inventory_def step_headers_def step_done_def online_env_def expected_columns_def)
qed

lemma online_add_order: "fst (add_order_to_sheet online_env order_data m) = Inr True"
proof -
  obtain s i where init: "fst (initialize_sheets online_env m) = Inr (Some s, i)"
    using online_initialize by blast
  have row: "\<And>w. fst (find_next_row online_env w) = Inr (Some 1)"
    by (simp add: find_next_row_def online_env_def)
  have op: "\<And>d n w. fst (add_to_sheet online_env d n w) = Inr True"
    by (simp add: add_to_sheet_def online_env_def)
  have r: "\<And>d n fn nm w.
      outcome (run (RetryableOperation 3 [ConnectionError, TimeoutError, BrokenPipeError])
                 (add_to_sheet online_env d n) fn nm (draw_retry online_env) w) = Inr True"
    unfolding run_def Let_def
    by (subst run_loop_return [where r = True]) (simp_all add: RetryableOperation_def op)
  have "fst (add_order_try online_env order_data m) = Inr True"
    by (simp add: add_order_try_def Let_def init row r)
  then show ?thesis by (simp add: add_order_to_sheet_def)
qed

lemma order_cached_resident: "''order_A1'' \<in> resident (orders_cache order_cached)"
  by (simp add: order_cached_def update_cache_def Let_def get_cache_orders cache_set_def
      update_access_order_eq resident_def init_manager_def fresh_cache_def init_cache_def)

text \<open>
  An order is added through a service that answers, while the orders cache holds the
  order \<^verbatim>\<open>A1\<close>: the call returns \<^verbatim>\<open>True\<close>, the orders cache is empty afterwards, a
  lookup of \<^verbatim>\<open>order_A1\<close> misses, and the inventory cache is the fresh one.
\<close>

theorem C8_add_order_clears_orders_cache_witness:
  "fst (add_order_to_sheet online_env [PStr ''A2''] order_cached) = Inr True \<and>
   ''order_A1'' \<in> resident (orders_cache order_cached) \<and>
   resident (orders_cache (snd (add_order_to_sheet online_env [PStr ''A2''] order_cached))) = {} \<and>
   fst (check_cache ''order_A1'' ''orders'' (Some 30)
          (snd (add_order_to_sheet online_env [PStr ''A2''] order_cached))) = (False, None) \<and>
   inventory_cache (snd (add_order_to_sheet online_env [PStr ''A2''] order_cached)) =
     fresh_cache 20 300"
proof -
  have a: "fst (add_order_to_sheet online_env [PStr ''A2''] order_cached) = Inr True"
    by (rule online_add_order)
  have i: "inventory_cache order_cached = fresh_cache 20 300"
    by (simp add: order_cached_def update_cache_def Let_def put_cache_def init_manager_def)
  from C8_add_order_clears_orders_cache [OF a, where order_id = "''A1''"] a i
    order_cached_resident
  show ?thesis by (simp add: resident_def)
qed

subsection \<open>The stored time-to-live decides\<close>

lemma ttl_remove_entry:
  "\<forall>k e. map_of (cache c) k = Some e \<longrightarrow> e_ttl e \<noteq> None \<Longrightarrow>
   \<forall>k e. map_of (cache (remove_entry c key)) k = Some e \<longrightarrow> e_ttl e \<noteq> None"
  by (simp add: remove_entry_def Let_def delete_conv')

lemma ttl_evict_lru:
  "\<forall>k e. map_of (cache c) k = Some e \<longrightarrow> e_ttl e \<noteq> None \<Longrightarrow>
   \<forall>k e. map_of (cache (evict_lru c)) k = Some e \<longrightarrow> e_ttl e \<noteq> None"
  unfolding evict_lru_def by (cases "access_order c") (simp_all add: ttl_remove_entry)

lemma ttl_get:
  "\<forall>k e. map_of (cache c) k = Some e \<longrightarrow> e_ttl e \<noteq> None \<Longrightarrow>
   \<forall>k e. map_of (cache (snd (cache_get c key d now))) k = Some e \<longrightarrow> e_ttl e \<noteq> None"
  using ttl_remove_entry [of c key]
  by (simp add: cache_get_def Let_def update_access_order_eq split: option.splits)

lemma ttl_set:
  "\<forall>k e. map_of (cache c) k = Some e \<longrightarrow> e_ttl e \<noteq> None \<Longrightarrow>
   \<forall>k e. map_of (cache (snd (cache_set c key val ttl now))) k = Some e \<longrightarrow> e_ttl e \<noteq> None"
  using ttl_evict_lru [of c]
  by (auto simp add: cache_set_def Let_def update_access_order_eq update_conv')

lemma ttl_clear:
  "\<forall>k e. map_of (cache c) k = Some e \<longrightarrow> e_ttl e \<noteq> None \<Longrightarrow>
   \<forall>k e. map_of (cache (cache_clear c key)) k = Some e \<longrightarrow> e_ttl e \<noteq> None"
  by (simp add: cache_clear_def Let_def delete_conv' split: option.splits)

lemma ttl_run_ops:
  "\<forall>k e. map_of (cache (run_ops (fresh_cache n d0) ops)) k = Some e \<longrightarrow> e_ttl e \<noteq> None"
proof (induction ops rule: rev_induct)
  case Nil
  show ?case by (simp add: run_ops_Nil fresh_cache_def init_cache_def)
next
  case (snoc op ops)
  show ?case
  proof (cases op)
    case (OpGet k d now)
    show ?thesis unfolding run_ops_snoc OpGet apply_op.simps by (rule ttl_get [OF snoc])
  next
    case (OpSet k v ttl now)
    show ?thesis unfolding run_ops_snoc OpSet apply_op.simps by (rule ttl_set [OF snoc])
  next
    case (OpClear k)
    show ?thesis unfolding run_ops_snoc OpClear apply_op.simps by (rule ttl_clear [OF snoc])
  qed
qed

lemma get_ignores_default:
  assumes "\<forall>e. map_of (cache c) key = Some e \<longrightarrow> e_ttl e \<noteq> None"
  shows "cache_get c key d now = cache_get c key d' now"
proof (cases "map_of (cache c) key")
  case None
  then show ?thesis by (simp add: cache_get_def)
next
  case (Some entry)
  with assms obtain t where "e_ttl entry = Some t" by auto
  with Some show ?thesis by (simp add: cache_get_def)
qed

lemma set_entry:
  "map_of (cache (snd (cache_set c key val ttl now))) key =
     Some \<lparr>e_data = val, e_timestamp = Some now, e_ttl = Some (py_or ttl (default_ttl c))\<rparr>"
proof -
  have "default_ttl (evict_lru c) = default_ttl c"
    by (simp add: evict_lru_def remove_entry_def Let_def split: list.splits)
  then show ?thesis
    by (simp add: cache_set_def Let_def update_access_order_eq update_conv')
qed

lemma get_after_set:
  "fst (cache_get (snd (cache_set c key val ttl now)) key d later) =
     (if later - now > py_or ttl (default_ttl c) then (False, None) else (True, val))"
  unfolding cache_get_def set_entry by (simp add: Let_def)

lemma check_after_update:
  "fst (check_cache k ''orders'' max_age
          ((snd (update_cache k data ''orders'' None m))\<lparr>clock := t\<rparr>)) =
     (if t - clock m > default_ttl (orders_cache m) then (False, None) else (True, data))"
proof -
  have "get_cache ''orders'' ((snd (update_cache k data ''orders'' None m))\<lparr>clock := t\<rparr>) =
          snd (cache_set (orders_cache m) k data None (clock m))"
    by (simp add: update_cache_def Let_def get_cache_def put_cache_def)
  then show ?thesis
    unfolding check_cache_def Let_def fst_conv by (simp add: get_after_set py_or_def)
qed

text \<open>
  Claim C10. Every entry written by \<^verbatim>\<open>set\<close> carries a time-to-live: the one of the
  call when truthy, otherwise the default of the cache. The \<^verbatim>\<open>default_ttl\<close> argument
  of a later \<^verbatim>\<open>get\<close> changes nothing, neither in the result nor in the cache, right
  after the \<^verbatim>\<open>set\<close> and after any sequence of operations on a fresh cache. In the
  gateway: when an order is cached by \<^verbatim>\<open>_update_cache(cache_key, order, "orders")\<close> at
  clock reading \<open>clock m\<close>, a later \<^verbatim>\<open>_check_cache(cache_key, "orders", max_age)\<close> at
  clock reading \<open>t\<close> is a hit exactly when \<open>t - clock m\<close> is at most the default of the
  orders cache (60 seconds in the gateway), whatever \<^verbatim>\<open>max_age\<close> is; within that time
  \<^verbatim>\<open>get_order_details\<close>, which passes \<^verbatim>\<open>max_age=30\<close>, returns the cached order
  whatever the remote service would answer.
\<close>

theorem C10_stored_ttl_decides:
  "map_of (cache (snd (cache_set c key val ttl now))) key =
     Some \<lparr>e_data = val, e_timestamp = Some now, e_ttl = Some (py_or ttl (default_ttl c))\<rparr> \<and>
   cache_get (snd (cache_set c key val ttl now)) key d later =
     cache_get (snd (cache_set c key val ttl now)) key d' later \<and>
   cache_get (run_ops (fresh_cache n d0) ops) key2 d later =
     cache_get (run_ops (fresh_cache n d0) ops) key2 d' later \<and>
   fst (check_cache (''order_'' @ order_id) ''orders'' max_age
          ((snd (update_cache (''order_'' @ order_id) (Some (CachedOrder order)) ''orders'' None m))
             \<lparr>clock := t\<rparr>)) =
     (if t - clock m \<le> default_ttl (orders_cache m) then (True, Some (CachedOrder order))
      else (False, None)) \<and>
   (t - clock m \<le> default_ttl (orders_cache m) \<longrightarrow>
      fst (get_order_details env order_id
             ((snd (update_cache (''order_'' @ order_id) (Some (CachedOrder order)) ''orders'' None m))
                \<lparr>clock := t\<rparr>)) = Inr (Some (CachedOrder order)))"
proof -
  have a: "cache_get (snd (cache_set c key val ttl now)) key d later =
     cache_get (snd (cache_set c key val ttl now)) key d' later"
    by (rule get_ignores_default) (simp add: set_entry)
  have b: "cache_get (run_ops (fresh_cache n d0) ops) key2 d later =
     cache_get (run_ops (fresh_cache n d0) ops) key2 d' later"
    by (rule get_ignores_default) (simp add: ttl_run_ops)
  have g: "t - clock m \<le> default_ttl (orders_cache m) \<longrightarrow>
      fst (get_order_details env order_id
             ((snd (update_cache (''order_'' @ order_id) (Some (CachedOrder order)) ''orders'' None m))
                \<lparr>clock := t\<rparr>)) = Inr (Some (CachedOrder order))"
    unfolding get_order_details_def Let_def check_after_update by simp
  show ?thesis
    unfolding check_after_update using set_entry [of c key val ttl now] a b g
    by (simp add: not_less)
qed

text \<open>
  The order \<^verbatim>\<open>A1\<close> is cached at clock reading 1000 by a manager as the constructor
  builds it (the orders cache has the default 60). At clock reading 1045, more than 30
  seconds later, the lookup with \<^verbatim>\<open>max_age=30\<close> is a hit, and \<^verbatim>\<open>get_order_details\<close>
  returns the cached order from a service that cannot be reached; at 1061 the lookup
  misses.
\<close>

theorem C10_stored_ttl_decides_witness:
  "fst (check_cache ''order_A1'' ''orders'' (Some 30) (order_cached\<lparr>clock := 1045\<rparr>)) =
     (True, Some (CachedOrder sample_order)) \<and>
   fst (get_order_details offline_env ''A1'' (order_cached\<lparr>clock := 1045\<rparr>)) =
     Inr (Some (CachedOrder sample_order)) \<and>
   fst (check_cache ''order_A1'' ''orders'' (Some 30) (order_cached\<lparr>clock := 1061\<rparr>)) =
     (False, None)"
proof -
  have c: "clock (init_manager 1000 :: nat manager) = 1000"
    "default_ttl (orders_cache (init_manager 1000 :: nat manager)) = 60"
    by (simp_all add: init_manager_def fresh_cache_def)
  note at_1045 = C10_stored_ttl_decides [where order_id = "''A1''" and order = sample_order
      and m = "init_manager 1000 :: nat manager" and t = 1045 and max_age = "Some 30"
      and env = offline_env and c = "fresh_cache 2 60 :: nat enhanced_cache" and key = "''k''"
      and val = None and ttl = None and now = 0 and d = None and d' = None and later = 0
      and n = 0 and ?d0.0 = 0 and ops = "[] :: nat cache_op list" and ?key2.0 = "''k''"]
  note at_1061 = C10_stored_ttl_decides [where order_id = "''A1''" and order = sample_order
      and m = "init_manager 1000 :: nat manager" and t = 1061 and max_age = "Some 30"
      and env = offline_env and c = "fresh_cache 2 60 :: nat enhanced_cache" and key = "''k''"
      and val = None and ttl = None and now = 0 and d = None and d' = None and later = 0
      and n = 0 and ?d0.0 = 0 and ops = "[] :: nat cache_op list" and ?key2.0 = "''k''"]
  from at_1045 at_1061 show ?thesis unfolding order_cached_def c by simp
qed

end
